theory Spec2Isabelle
  imports Main "HOL-Library.Sublist"
begin

section \<open>Paths\<close>

text \<open>
  A path is the list of its components below the filesystem root. The roots of a run
  (the home directory and the shared folder) are absolute. A configured file path is
  a string; \<open>joinpath\<close> is the \<open>/\<close> operator of pathlib: the string is cut at
  slashes, empty and \<open>.\<close> components are dropped, \<open>..\<close> components are kept, and an
  absolute right operand replaces the left one.
\<close>

type_synonym path = "string list"

fun splitc :: "char \<Rightarrow> string \<Rightarrow> string list" where
  "splitc c [] = [[]]"
| "splitc c (x # xs) =
     (if x = c then [] # splitc c xs
      else (case splitc c xs of [] \<Rightarrow> [[x]] | w # ws \<Rightarrow> (x # w) # ws))"

definition path_parts :: "string \<Rightarrow> path" where
  "path_parts s = filter (\<lambda>w. w \<noteq> [] \<and> w \<noteq> ''.'') (splitc CHR ''/'' s)"

definition is_absolute :: "string \<Rightarrow> bool" where
  "is_absolute s = (case s of [] \<Rightarrow> False | c # _ \<Rightarrow> c = CHR ''/'')"

definition joinpath :: "path \<Rightarrow> string \<Rightarrow> path" where
  "joinpath base s = (if is_absolute s then path_parts s else base @ path_parts s)"

fun join_slash :: "string list \<Rightarrow> string" where
  "join_slash [] = []"
| "join_slash [w] = w"
| "join_slash (w # ws) = w @ ''/'' @ join_slash ws"

definition str_of :: "path \<Rightarrow> string" where
  \<comment> \<open>\<open>str\<close> of a relative pathlib path\<close>
  "str_of p = (if p = [] then ''.'' else join_slash p)"

definition norm_step :: "path \<Rightarrow> string \<Rightarrow> path" where
  "norm_step acc c = (if c = ''..'' then butlast acc else acc @ [c])"

definition normpath :: "path \<Rightarrow> path" where
  \<comment> \<open>a \<open>..\<close> component removes the component before it; at the root it is dropped\<close>
  "normpath p = foldl norm_step [] p"

section \<open>Errors\<close>

datatype error =
    Unsupported_file path
  | Invalid_strategy string
  | Not_relative path path
  | Symlink_loop path
  | File_not_found path
  | Copy_failed path
  | Link_exists path

section \<open>The filesystem\<close>

text \<open>
  The store maps a whole path to the node found there. A regular file carries its
  bytes and a directory its (opaque) subtree, so that copying the node is the recursive
  copy. A symbolic link carries the absolute, normalised path it points to. \<open>Special\<close>
  is a node that is neither a regular file, nor a directory, nor a link (a FIFO, a
  socket, a device). A path is looked up as a unit: only a link at the path itself is
  followed, the directories above it are taken to be plain directories.
\<close>

type_synonym content = string

datatype node = File content | Dir content | Link path | Special

type_synonym filesystem = "path \<Rightarrow> node option"

definition MAXSYMLINKS :: nat where
  "MAXSYMLINKS = 40"

primrec follow :: "nat \<Rightarrow> filesystem \<Rightarrow> path \<Rightarrow> path option" where
  "follow 0 fs p = (case fs p of Some (Link t) \<Rightarrow> None | _ \<Rightarrow> Some p)"
| "follow (Suc k) fs p = (case fs p of Some (Link t) \<Rightarrow> follow k fs t | _ \<Rightarrow> Some p)"

definition stat :: "filesystem \<Rightarrow> path \<Rightarrow> node option" where
  \<comment> \<open>\<open>os.stat\<close>: follows links; \<open>None\<close> when the path does not lead to a node\<close>
  "stat fs p = (case follow MAXSYMLINKS fs p of None \<Rightarrow> None | Some q \<Rightarrow> fs q)"

definition resolve :: "filesystem \<Rightarrow> path \<Rightarrow> error + path" where
  \<comment> \<open>\<open>Path.resolve()\<close>: normalises and follows links, also when the end does not exist;
      a chain of more than \<open>MAXSYMLINKS\<close> links is a loop, which raises\<close>
  "resolve fs p =
     (case follow MAXSYMLINKS fs (normpath p) of
        None \<Rightarrow> Inl (Symlink_loop p)
      | Some q \<Rightarrow> Inr q)"

definition isfile :: "filesystem \<Rightarrow> path \<Rightarrow> bool" where
  "isfile fs p = (case stat fs p of Some (File c) \<Rightarrow> True | _ \<Rightarrow> False)"

definition isdir :: "filesystem \<Rightarrow> path \<Rightarrow> bool" where
  "isdir fs p = (case stat fs p of Some (Dir c) \<Rightarrow> True | _ \<Rightarrow> False)"

definition islink :: "filesystem \<Rightarrow> path \<Rightarrow> bool" where
  "islink fs p = (case fs p of Some (Link t) \<Rightarrow> True | _ \<Rightarrow> False)"

definition exists_path :: "filesystem \<Rightarrow> path \<Rightarrow> bool" where
  "exists_path fs p = (case stat fs p of None \<Rightarrow> False | Some n \<Rightarrow> True)"

definition samefile :: "filesystem \<Rightarrow> path \<Rightarrow> path \<Rightarrow> error + bool" where
  \<comment> \<open>\<open>os.path.samefile\<close>: both paths are stat-ed; the same node is the same place\<close>
  "samefile fs a b =
     (case stat fs a of
        None \<Rightarrow> Inl (File_not_found a)
      | Some x \<Rightarrow>
          (case stat fs b of
             None \<Rightarrow> Inl (File_not_found b)
           | Some y \<Rightarrow> Inr (follow MAXSYMLINKS fs a = follow MAXSYMLINKS fs b)))"

definition relative_to :: "path \<Rightarrow> path \<Rightarrow> error + path" where
  "relative_to p root =
     (if prefix root p then Inr (drop (length root) p) else Inl (Not_relative p root))"

section \<open>The state of a run\<close>

datatype message =
    Backing_up_verbose path path
  | Backing_up string
  | Already_backed_up path path
  | Broken_link path
  | Does_not_exist path
  | Restoring_verbose path path
  | Restoring string
  | Already_linked path path
  | Reverting_verbose path path
  | Reverting string
  | Uninstall_missing path
  | Confirm_replace_backup string path
  | Confirm_replace_home string string

datatype call = Copy path path | Delete path | Symlink path path

text \<open>
  \<open>out\<close> is what was printed, prompts included; \<open>answers\<close> is what the user will
  answer to the prompts to come; \<open>trace\<close> lists the calls of the file operations, in
  the order they were made.
\<close>

record state =
  fs :: filesystem
  answers :: "bool list"
  out :: "message list"
  trace :: "call list"

type_synonym result = "(error \<times> state) + state"

definition and_then :: "result \<Rightarrow> (state \<Rightarrow> result) \<Rightarrow> result" where
  "and_then r f = (case r of Inl x \<Rightarrow> Inl x | Inr s \<Rightarrow> f s)"

definition print :: "message \<Rightarrow> state \<Rightarrow> state" where
  "print msg s = s\<lparr>out := out s @ [msg]\<rparr>"

definition final_state :: "result \<Rightarrow> state" where
  "final_state r = (case r of Inl (e, s) \<Rightarrow> s | Inr s \<Rightarrow> s)"

section \<open>File operations and the confirmation prompt\<close>

definition copy_fs :: "filesystem \<Rightarrow> path \<Rightarrow> path \<Rightarrow> error + filesystem" where
  \<comment> \<open>Modelled from the spec: \<open>utils.copy\<close> is not among the sources. Section 4.5:
      recursive, preserves the directory structure, fails loudly.\<close>
  "copy_fs f src dst =
     (case stat f src of
        Some (File c) \<Rightarrow> Inr (f(dst \<mapsto> File c))
      | Some (Dir c) \<Rightarrow> Inr (f(dst \<mapsto> Dir c))
      | _ \<Rightarrow> Inl (Copy_failed src))"

definition delete_fs :: "filesystem \<Rightarrow> path \<Rightarrow> filesystem" where
  \<comment> \<open>Modelled from the spec: \<open>utils.delete\<close> is not among the sources. Section 4.5:
      removes a file, a directory or a link itself, never the target of a link.\<close>
  "delete_fs f p = f(p := None)"

definition link_fs :: "filesystem \<Rightarrow> path \<Rightarrow> path \<Rightarrow> error + filesystem" where
  \<comment> \<open>Modelled from the spec: \<open>utils.link\<close> is not among the sources. Section 4.5:
      creates a link at the link path, fails if the link path already exists.\<close>
  "link_fs f target lp =
     (case f lp of
        None \<Rightarrow> Inr (f(lp \<mapsto> Link target))
      | Some n \<Rightarrow> Inl (Link_exists lp))"

definition utils_copy :: "path \<Rightarrow> path \<Rightarrow> state \<Rightarrow> result" where
  "utils_copy src dst s =
     (let s1 = s\<lparr>trace := trace s @ [Copy src dst]\<rparr> in
      case copy_fs (fs s) src dst of
        Inl e \<Rightarrow> Inl (e, s1)
      | Inr f \<Rightarrow> Inr (s1\<lparr>fs := f\<rparr>))"

definition utils_delete :: "path \<Rightarrow> state \<Rightarrow> result" where
  "utils_delete p s = Inr (s\<lparr>fs := delete_fs (fs s) p, trace := trace s @ [Delete p]\<rparr>)"

definition utils_link :: "path \<Rightarrow> path \<Rightarrow> state \<Rightarrow> result" where
  "utils_link target lp s =
     (let s1 = s\<lparr>trace := trace s @ [Symlink target lp]\<rparr> in
      case link_fs (fs s) target lp of
        Inl e \<Rightarrow> Inl (e, s1)
      | Inr f \<Rightarrow> Inr (s1\<lparr>fs := f\<rparr>))"

definition utils_confirm :: "message \<Rightarrow> state \<Rightarrow> bool \<times> state" where
  \<comment> \<open>Modelled from the spec: \<open>utils.confirm\<close> is not among the sources. Section 4.6:
      a yes/no prompt, "no" at the end of the input.\<close>
  "utils_confirm question s =
     (case answers s of
        [] \<Rightarrow> (False, print question s)
      | a # rest \<Rightarrow> (a, (print question s)\<lparr>answers := rest\<rparr>))"

section \<open>The application profile\<close>

text \<open>
  The fields of \<open>ApplicationProfile\<close>. \<open>configuration_files\<close> and
  \<open>enable_glob\<close> are the two entries of \<open>app\<close> that are read; the set of
  configured paths is the list of its elements in the order the loop meets them.
  \<open>mackup_folder\<close> is \<open>self.mackup.mackup_folder\<close>.
\<close>

record profile =
  configuration_files :: "string list"
  enable_glob :: bool
  mackup_folder :: path
  dry_run :: bool
  strategy :: string
  verbose :: bool

text \<open>
  What a run takes from its platform: the \<open>HOME\<close> variable, the expansion of a glob
  pattern below a directory (\<open>Path.glob\<close>) and the predicate
  \<open>utils.can_file_be_synced_on_current_platform\<close>.
\<close>

record platform =
  HOME :: path
  glob :: "filesystem \<Rightarrow> path \<Rightarrow> string \<Rightarrow> path list"
  can_file_be_synced_on_current_platform :: "path \<Rightarrow> bool"

type_synonym entry = "path \<times> path \<times> string"

fun sequence_err :: "(error + 'a) list \<Rightarrow> error + 'a list" where
  "sequence_err [] = Inr []"
| "sequence_err (x # xs) =
     (case x of
        Inl e \<Rightarrow> Inl e
      | Inr v \<Rightarrow> (case sequence_err xs of Inl e \<Rightarrow> Inl e | Inr vs \<Rightarrow> Inr (v # vs)))"

definition glob_entry :: "filesystem \<Rightarrow> path \<Rightarrow> path \<Rightarrow> path \<Rightarrow> error + entry" where
  "glob_entry f source target filename =
     (case resolve f filename of
        Inl e \<Rightarrow> Inl e
      | Inr a \<Rightarrow>
          (case relative_to filename source of
             Inl e \<Rightarrow> Inl e
           | Inr rel \<Rightarrow>
               (case resolve f (target @ rel) of
                  Inl e \<Rightarrow> Inl e
                | Inr b \<Rightarrow> Inr (a, b, str_of rel))))"

definition literal_entry :: "filesystem \<Rightarrow> path \<Rightarrow> path \<Rightarrow> string \<Rightarrow> error + entry" where
  "literal_entry f source target file_path =
     (case resolve f (joinpath source file_path) of
        Inl e \<Rightarrow> Inl e
      | Inr a \<Rightarrow>
          (case resolve f (joinpath target file_path) of
             Inl e \<Rightarrow> Inl e
           | Inr b \<Rightarrow> Inr (a, b, file_path)))"

definition get_files ::
  "platform \<Rightarrow> profile \<Rightarrow> filesystem \<Rightarrow> path \<Rightarrow> path \<Rightarrow> error + entry list" where
  "get_files pl pf f source target =
     (if enable_glob pf then
        sequence_err
          (concat (map (\<lambda>file_path. map (glob_entry f source target) (glob pl f source file_path))
                       (configuration_files pf)))
      else
        sequence_err (map (literal_entry f source target) (configuration_files pf)))"

definition file_type_of :: "filesystem \<Rightarrow> path \<Rightarrow> path \<Rightarrow> error + string" where
  \<comment> \<open>"Name it right": the path classified, and the path named by the error\<close>
  "file_type_of f p named =
     (if isfile f p then Inr ''file''
      else if isdir f p then Inr ''folder''
      else if islink f p then Inr ''link''
      else Inl (Unsupported_file named))"

subsection \<open>backup\<close>

definition backup_file :: "profile \<Rightarrow> path \<Rightarrow> path \<Rightarrow> state \<Rightarrow> result" where
  "backup_file pf home_filepath mackup_filepath s =
     (if strategy pf = ''link'' then
        and_then (utils_copy home_filepath mackup_filepath s) (\<lambda>s1.
        and_then (utils_delete home_filepath s1) (\<lambda>s2.
        utils_link mackup_filepath home_filepath s2))
      else if strategy pf = ''copy'' then
        utils_copy home_filepath mackup_filepath s
      else Inl (Invalid_strategy (strategy pf), s))"

definition backup_wanted :: "filesystem \<Rightarrow> path \<Rightarrow> path \<Rightarrow> error + bool" where
  \<comment> \<open>the file exists and is not already a link pointing to Mackup\<close>
  "backup_wanted f home_filepath mackup_filepath =
     (if isfile f home_filepath \<or> isdir f home_filepath then
        (if islink f home_filepath \<and> (isfile f mackup_filepath \<or> isdir f mackup_filepath) then
           (case samefile f home_filepath mackup_filepath of
              Inl e \<Rightarrow> Inl e
            | Inr same \<Rightarrow> Inr (\<not> same))
         else Inr True)
      else Inr False)"

definition backup_entry :: "profile \<Rightarrow> entry \<Rightarrow> state \<Rightarrow> result" where
  "backup_entry pf e s =
     (case e of (home_filepath, mackup_filepath, filename) \<Rightarrow>
        (case backup_wanted (fs s) home_filepath mackup_filepath of
           Inl err \<Rightarrow> Inl (err, s)
         | Inr True \<Rightarrow>
             (let s1 = print (if verbose pf then Backing_up_verbose home_filepath mackup_filepath
                              else Backing_up filename) s in
              if dry_run pf then Inr s1
              else if exists_path (fs s1) mackup_filepath then
                (case file_type_of (fs s1) mackup_filepath mackup_filepath of
                   Inl err \<Rightarrow> Inl (err, s1)
                 | Inr file_type \<Rightarrow>
                     (case utils_confirm (Confirm_replace_backup file_type mackup_filepath) s1 of
                        (True, s2) \<Rightarrow>
                          and_then (utils_delete mackup_filepath s2)
                            (backup_file pf home_filepath mackup_filepath)
                      | (False, s2) \<Rightarrow> Inr s2))
              else backup_file pf home_filepath mackup_filepath s1)
         | Inr False \<Rightarrow>
             (if verbose pf then
                (if exists_path (fs s) home_filepath then
                   Inr (print (Already_backed_up home_filepath mackup_filepath) s)
                 else if islink (fs s) home_filepath then
                   Inr (print (Broken_link home_filepath) s)
                 else Inr (print (Does_not_exist home_filepath) s))
              else Inr s)))"

fun backup_loop :: "profile \<Rightarrow> entry list \<Rightarrow> state \<Rightarrow> result" where
  "backup_loop pf [] s = Inr s"
| "backup_loop pf (e # es) s =
     (case backup_entry pf e s of Inl x \<Rightarrow> Inl x | Inr s' \<Rightarrow> backup_loop pf es s')"

definition backup :: "platform \<Rightarrow> profile \<Rightarrow> state \<Rightarrow> result" where
  "backup pl pf s =
     (case get_files pl pf (fs s) (HOME pl) (mackup_folder pf) of
        Inl e \<Rightarrow> Inl (e, s)
      | Inr es \<Rightarrow> backup_loop pf es s)"

subsection \<open>restore\<close>

definition restore_file :: "profile \<Rightarrow> path \<Rightarrow> path \<Rightarrow> state \<Rightarrow> result" where
  "restore_file pf mackup_filepath home_filepath s =
     (if strategy pf = ''link'' then utils_link mackup_filepath home_filepath s
      else if strategy pf = ''copy'' then utils_copy mackup_filepath home_filepath s
      else Inl (Invalid_strategy (strategy pf), s))"

definition pointing_to_mackup :: "filesystem \<Rightarrow> path \<Rightarrow> path \<Rightarrow> error + bool" where
  "pointing_to_mackup f mackup_filepath home_filepath =
     (if islink f home_filepath \<and> exists_path f mackup_filepath then
        samefile f mackup_filepath home_filepath
      else Inr False)"

definition restore_wanted :: "platform \<Rightarrow> filesystem \<Rightarrow> path \<Rightarrow> path \<Rightarrow> error + bool" where
  \<comment> \<open>the three tests before the \<open>if\<close>, evaluated in the order of the source\<close>
  "restore_wanted pl f mackup_filepath home_filepath =
     (let file_or_dir_exists = isfile f mackup_filepath \<or> isdir f mackup_filepath in
      case pointing_to_mackup f mackup_filepath home_filepath of
        Inl e \<Rightarrow> Inl e
      | Inr pointing \<Rightarrow>
          (case relative_to home_filepath (HOME pl) of
             Inl e \<Rightarrow> Inl e
           | Inr rel \<Rightarrow>
               Inr (file_or_dir_exists \<and> \<not> pointing
                    \<and> can_file_be_synced_on_current_platform pl rel)))"

definition restore_entry :: "platform \<Rightarrow> profile \<Rightarrow> entry \<Rightarrow> state \<Rightarrow> result" where
  "restore_entry pl pf e s =
     (case e of (mackup_filepath, home_filepath, filename) \<Rightarrow>
        (case restore_wanted pl (fs s) mackup_filepath home_filepath of
           Inl err \<Rightarrow> Inl (err, s)
         | Inr True \<Rightarrow>
             (let s1 = print (if verbose pf then Restoring_verbose home_filepath mackup_filepath
                              else Restoring filename) s in
              if dry_run pf then Inr s1
              else if exists_path (fs s1) home_filepath then
                (case file_type_of (fs s1) home_filepath mackup_filepath of
                   Inl err \<Rightarrow> Inl (err, s1)
                 | Inr file_type \<Rightarrow>
                     (case utils_confirm (Confirm_replace_home file_type filename) s1 of
                        (True, s2) \<Rightarrow>
                          and_then (utils_delete home_filepath s2)
                            (restore_file pf mackup_filepath home_filepath)
                      | (False, s2) \<Rightarrow> Inr s2))
              else restore_file pf mackup_filepath home_filepath s1)
         | Inr False \<Rightarrow>
             (if verbose pf then
                (if exists_path (fs s) home_filepath then
                   Inr (print (Already_linked mackup_filepath home_filepath) s)
                 else if islink (fs s) home_filepath then
                   Inr (print (Broken_link home_filepath) s)
                 else Inr (print (Does_not_exist mackup_filepath) s))
              else Inr s)))"

fun restore_loop :: "platform \<Rightarrow> profile \<Rightarrow> entry list \<Rightarrow> state \<Rightarrow> result" where
  "restore_loop pl pf [] s = Inr s"
| "restore_loop pl pf (e # es) s =
     (case restore_entry pl pf e s of Inl x \<Rightarrow> Inl x | Inr s' \<Rightarrow> restore_loop pl pf es s')"

definition restore :: "platform \<Rightarrow> profile \<Rightarrow> state \<Rightarrow> result" where
  "restore pl pf s =
     (case get_files pl pf (fs s) (mackup_folder pf) (HOME pl) of
        Inl e \<Rightarrow> Inl (e, s)
      | Inr es \<Rightarrow> restore_loop pl pf es s)"

subsection \<open>uninstall\<close>

definition uninstall_entry :: "profile \<Rightarrow> entry \<Rightarrow> state \<Rightarrow> result" where
  "uninstall_entry pf e s =
     (case e of (mackup_filepath, home_filepath, filename) \<Rightarrow>
        (if isfile (fs s) mackup_filepath \<or> isdir (fs s) mackup_filepath then
           (if exists_path (fs s) home_filepath then
              (let s1 = print (if verbose pf then Reverting_verbose mackup_filepath home_filepath
                               else Reverting filename) s in
               if dry_run pf then Inr s1
               else
                 and_then (utils_delete home_filepath s1)
                   (utils_copy mackup_filepath home_filepath))
            else Inr s)
         else if verbose pf then Inr (print (Uninstall_missing mackup_filepath) s)
         else Inr s))"

fun uninstall_loop :: "profile \<Rightarrow> entry list \<Rightarrow> state \<Rightarrow> result" where
  "uninstall_loop pf [] s = Inr s"
| "uninstall_loop pf (e # es) s =
     (case uninstall_entry pf e s of Inl x \<Rightarrow> Inl x | Inr s' \<Rightarrow> uninstall_loop pf es s')"

definition uninstall :: "platform \<Rightarrow> profile \<Rightarrow> state \<Rightarrow> result" where
  "uninstall pl pf s =
     (case get_files pl pf (fs s) (mackup_folder pf) (HOME pl) of
        Inl e \<Rightarrow> Inl (e, s)
      | Inr es \<Rightarrow> uninstall_loop pf es s)"

section \<open>Sequences of invocations\<close>

datatype operation = Backup | Restore | Uninstall

definition run_op :: "platform \<Rightarrow> operation \<Rightarrow> profile \<Rightarrow> state \<Rightarrow> result" where
  "run_op pl op pf s =
     (case op of
        Backup \<Rightarrow> backup pl pf s
      | Restore \<Rightarrow> restore pl pf s
      | Uninstall \<Rightarrow> uninstall pl pf s)"

text \<open>
  One invocation after the other, each with its own profile. An invocation that raised
  leaves the state it had reached, and the next one starts there.
\<close>

fun run_ops :: "platform \<Rightarrow> (operation \<times> profile) list \<Rightarrow> state \<Rightarrow> state" where
  "run_ops pl [] s = s"
| "run_ops pl (x # rest) s = run_ops pl rest (final_state (run_op pl (fst x) (snd x) s))"

definition same_files :: "state \<Rightarrow> state \<Rightarrow> bool" where
  \<comment> \<open>the same filesystem, and no file operation called in between\<close>
  "same_files s s' = (fs s' = fs s \<and> trace s' = trace s)"

definition declines :: "bool list \<Rightarrow> bool" where
  \<comment> \<open>the answer to the next prompt is "no"\<close>
  "declines as = (case as of [] \<Rightarrow> True | a # rest \<Rightarrow> \<not> a)"

section \<open>Which files reach a file action\<close>

definition raises_invalid_strategy :: "result \<Rightarrow> bool" where
  "raises_invalid_strategy r =
     (case r of Inl (Invalid_strategy x, s) \<Rightarrow> True | _ \<Rightarrow> False)"

definition backup_entry_reaches :: "profile \<Rightarrow> entry \<Rightarrow> state \<Rightarrow> bool" where
  \<comment> \<open>the entry gets as far as a call of \<open>backup_file\<close>\<close>
  "backup_entry_reaches pf e s =
     (case e of (home_filepath, mackup_filepath, filename) \<Rightarrow>
        backup_wanted (fs s) home_filepath mackup_filepath = Inr True \<and> \<not> dry_run pf
        \<and> (if exists_path (fs s) mackup_filepath then
             (case file_type_of (fs s) mackup_filepath mackup_filepath of
                Inl err \<Rightarrow> False
              | Inr file_type \<Rightarrow> \<not> declines (answers s))
           else True))"

fun backup_reaches :: "profile \<Rightarrow> entry list \<Rightarrow> state \<Rightarrow> bool" where
  "backup_reaches pf [] s = False"
| "backup_reaches pf (e # es) s =
     (if backup_entry_reaches pf e s then True
      else (case backup_entry pf e s of Inl x \<Rightarrow> False | Inr s' \<Rightarrow> backup_reaches pf es s'))"

definition restore_entry_reaches :: "platform \<Rightarrow> profile \<Rightarrow> entry \<Rightarrow> state \<Rightarrow> bool" where
  \<comment> \<open>the entry gets as far as a call of \<open>restore_file\<close>\<close>
  "restore_entry_reaches pl pf e s =
     (case e of (mackup_filepath, home_filepath, filename) \<Rightarrow>
        restore_wanted pl (fs s) mackup_filepath home_filepath = Inr True \<and> \<not> dry_run pf
        \<and> (if exists_path (fs s) home_filepath then
             (case file_type_of (fs s) home_filepath mackup_filepath of
                Inl err \<Rightarrow> False
              | Inr file_type \<Rightarrow> \<not> declines (answers s))
           else True))"

fun restore_reaches :: "platform \<Rightarrow> profile \<Rightarrow> entry list \<Rightarrow> state \<Rightarrow> bool" where
  "restore_reaches pl pf [] s = False"
| "restore_reaches pl pf (e # es) s =
     (if restore_entry_reaches pl pf e s then True
      else (case restore_entry pl pf e s of
              Inl x \<Rightarrow> False
            | Inr s' \<Rightarrow> restore_reaches pl pf es s'))"

section \<open>Names that stay inside their root\<close>

text \<open>
  The invariant of the data model, in its own words: a relative name is not empty and
  does not leave its root through \<open>..\<close>. \<open>inside_walk d cs\<close> walks the components
  \<open>cs\<close> from depth \<open>d\<close> below the root and never steps above the root.
\<close>

fun inside_walk :: "nat \<Rightarrow> path \<Rightarrow> bool" where
  "inside_walk d [] = True"
| "inside_walk d (c # cs) =
     (if c = ''..'' then 0 < d \<and> inside_walk (d - 1) cs else inside_walk (Suc d) cs)"

definition name_inside_root :: "string \<Rightarrow> bool" where
  "name_inside_root n =
     (path_parts n \<noteq> [] \<and> \<not> is_absolute n \<and> inside_walk 0 (path_parts n))"

definition relative_name :: "entry \<Rightarrow> string" where
  "relative_name e = snd (snd e)"

section \<open>A concrete run\<close>

text \<open>
  The example of the spec: one tracked file \<open>.vimrc\<close>, the home directory at
  \<open>/home\<close> and the shared folder at \<open>/mackup\<close>.
\<close>

definition ex_platform :: platform where
  "ex_platform =
     \<lparr>HOME = [''home''], glob = (\<lambda>f d pattern. []),
      can_file_be_synced_on_current_platform = (\<lambda>rel. True)\<rparr>"

definition ex_profile :: "string \<Rightarrow> bool \<Rightarrow> bool \<Rightarrow> profile" where
  "ex_profile strat dry verb =
     \<lparr>configuration_files = [''.vimrc''], enable_glob = False, mackup_folder = [''mackup''],
      dry_run = dry, strategy = strat, verbose = verb\<rparr>"

definition ex_state :: "filesystem \<Rightarrow> bool list \<Rightarrow> state" where
  "ex_state f as = \<lparr>fs = f, answers = as, out = [], trace = []\<rparr>"

definition home_vimrc :: path where
  "home_vimrc = [''home'', ''.vimrc'']"

definition mackup_vimrc :: path where
  "mackup_vimrc = [''mackup'', ''.vimrc'']"

definition ex_glob :: "filesystem \<Rightarrow> path \<Rightarrow> string \<Rightarrow> path list" where
  \<comment> \<open>a glob that matches \<open>.vimrc\<close> and \<open>.vim\<close> for the pattern \<open>.vim*\<close>\<close>
  "ex_glob f d pattern =
     (if pattern = ''.vim*'' then [d @ [''.vimrc''], d @ [''.vim'']] else [])"

text \<open>
  A platform on which nothing below \<open>Library\<close> is synced, and a profile that tracks
  a file there.
\<close>

definition ex_platform_linux :: platform where
  "ex_platform_linux =
     \<lparr>HOME = [''home''], glob = (\<lambda>f d pattern. []),
      can_file_be_synced_on_current_platform = (\<lambda>rel. \<not> prefix [''Library''] rel)\<rparr>"

definition ex_profile_library :: profile where
  "ex_profile_library =
     \<lparr>configuration_files = [''Library/prefs''], enable_glob = False,
      mackup_folder = [''mackup''], dry_run = False, strategy = ''link'', verbose = True\<rparr>"

section \<open>Basic facts\<close>

lemmas path_defs =
  path_parts_def is_absolute_def joinpath_def str_of_def norm_step_def normpath_def

lemmas os_defs =
  stat_def resolve_def isfile_def isdir_def islink_def exists_path_def samefile_def
  relative_to_def MAXSYMLINKS_def

lemmas utils_defs =
  copy_fs_def delete_fs_def link_fs_def utils_copy_def utils_delete_def utils_link_def
  utils_confirm_def print_def and_then_def

lemmas ex_defs =
  ex_platform_def ex_profile_def ex_state_def home_vimrc_def mackup_vimrc_def

lemma follow_numeral:
  "follow (numeral n) f p =
     (case f p of Some (Link t) \<Rightarrow> follow (pred_numeral n) f t | _ \<Rightarrow> Some p)"
  by (simp add: numeral_eq_Suc)

lemma follow_not_link: "\<not> islink f p \<Longrightarrow> follow k f p = Some p"
  by (cases k) (auto simp: islink_def split: option.splits node.splits)

lemma stat_not_link: "\<not> islink f p \<Longrightarrow> stat f p = f p"
  by (simp add: stat_def follow_not_link)

lemma final_state_Inr: "final_state (Inr s) = s"
  by (simp add: final_state_def)

lemma final_state_Inl: "final_state (Inl (e, s)) = s"
  by (simp add: final_state_def)

lemma same_files_refl: "same_files s s"
  by (simp add: same_files_def)

lemma same_files_trans: "same_files s s1 \<Longrightarrow> same_files s1 s2 \<Longrightarrow> same_files s s2"
  by (simp add: same_files_def)

lemma same_files_print: "same_files s (print m s)"
  by (simp add: same_files_def print_def)

lemma backup_wanted_total: "\<exists>b. backup_wanted f h m = Inr b"
  by (auto simp: backup_wanted_def samefile_def isfile_def isdir_def
      split: option.splits node.splits)

section \<open>Dry-run\<close>

lemma backup_entry_dry:
  "dry_run pf \<Longrightarrow> same_files s (final_state (backup_entry pf e s))"
  by (cases e) (simp add: backup_entry_def final_state_def same_files_refl same_files_print Let_def
      split: sum.splits bool.splits)

lemma restore_entry_dry:
  "dry_run pf \<Longrightarrow> same_files s (final_state (restore_entry pl pf e s))"
  by (cases e) (simp add: restore_entry_def final_state_def same_files_refl same_files_print Let_def
      split: sum.splits bool.splits)

lemma uninstall_entry_dry:
  "dry_run pf \<Longrightarrow> same_files s (final_state (uninstall_entry pf e s))"
  by (cases e) (simp add: uninstall_entry_def final_state_def same_files_refl same_files_print Let_def)

lemma backup_loop_dry:
  "dry_run pf \<Longrightarrow> same_files s (final_state (backup_loop pf es s))"
proof (induction es arbitrary: s)
  case Nil
  show ?case by (simp add: final_state_Inr same_files_refl)
next
  case (Cons e es)
  show ?case
  proof (cases "backup_entry pf e s")
    case (Inl x)
    with backup_entry_dry [OF Cons.prems, of s e] show ?thesis by simp
  next
    case (Inr s')
    with backup_entry_dry [OF Cons.prems, of s e] have "same_files s s'"
      by (simp add: final_state_Inr)
    with Cons.IH [OF Cons.prems, of s'] Inr show ?thesis
      by (auto intro: same_files_trans)
  qed
qed

lemma restore_loop_dry:
  "dry_run pf \<Longrightarrow> same_files s (final_state (restore_loop pl pf es s))"
proof (induction es arbitrary: s)
  case Nil
  show ?case by (simp add: final_state_Inr same_files_refl)
next
  case (Cons e es)
  show ?case
  proof (cases "restore_entry pl pf e s")
    case (Inl x)
    with restore_entry_dry [OF Cons.prems, of s pl e] show ?thesis by simp
  next
    case (Inr s')
    with restore_entry_dry [OF Cons.prems, of s pl e] have "same_files s s'"
      by (simp add: final_state_Inr)
    with Cons.IH [OF Cons.prems, of s'] Inr show ?thesis
      by (auto intro: same_files_trans)
  qed
qed

lemma uninstall_loop_dry:
  "dry_run pf \<Longrightarrow> same_files s (final_state (uninstall_loop pf es s))"
proof (induction es arbitrary: s)
  case Nil
  show ?case by (simp add: final_state_Inr same_files_refl)
next
  case (Cons e es)
  show ?case
  proof (cases "uninstall_entry pf e s")
    case (Inl x)
    with uninstall_entry_dry [OF Cons.prems, of s e] show ?thesis by simp
  next
    case (Inr s')
    with uninstall_entry_dry [OF Cons.prems, of s e] have "same_files s s'"
      by (simp add: final_state_Inr)
    with Cons.IH [OF Cons.prems, of s'] Inr show ?thesis
      by (auto intro: same_files_trans)
  qed
qed

lemma run_op_dry: "dry_run pf \<Longrightarrow> same_files s (final_state (run_op pl op pf s))"
  by (cases op)
    (auto simp: run_op_def backup_def restore_def uninstall_def final_state_Inl same_files_refl
      backup_loop_dry restore_loop_dry uninstall_loop_dry split: sum.splits)

text \<open>
  C2. Whatever the sequence of backup, restore and uninstall invocations, each with
  dry-run enabled, and whatever the state it starts from: the filesystem at the end is
  the filesystem at the start, and no copy, delete or link was called.
\<close>

theorem dry_run_purity:
  assumes "\<forall>x \<in> set ops. dry_run (snd x)"
  shows "fs (run_ops pl ops s) = fs s \<and> trace (run_ops pl ops s) = trace s"
proof -
  from assms have "same_files s (run_ops pl ops s)"
  proof (induction ops arbitrary: s)
    case Nil
    show ?case by (simp add: same_files_refl)
  next
    case (Cons x rest)
    from Cons.prems have "dry_run (snd x)" by simp
    then have "same_files s (final_state (run_op pl (fst x) (snd x) s))"
      by (rule run_op_dry)
    moreover from Cons.prems
    have "same_files (final_state (run_op pl (fst x) (snd x) s))
            (run_ops pl rest (final_state (run_op pl (fst x) (snd x) s)))"
      by (intro Cons.IH) simp
    ultimately show ?case
      by (auto intro: same_files_trans)
  qed
  then show ?thesis by (simp add: same_files_def)
qed

theorem dry_run_purity_witness:
  "fs (run_ops ex_platform
          [(Backup, ex_profile ''link'' True False), (Restore, ex_profile ''copy'' True True),
           (Uninstall, ex_profile ''link'' True False)]
          (ex_state [home_vimrc \<mapsto> File ''A''] [True, True])) = [home_vimrc \<mapsto> File ''A'']
   \<and> trace (run_ops ex_platform
          [(Backup, ex_profile ''link'' True False), (Restore, ex_profile ''copy'' True True),
           (Uninstall, ex_profile ''link'' True False)]
          (ex_state [home_vimrc \<mapsto> File ''A''] [True, True])) = []"
  using dry_run_purity [of "[(Backup, ex_profile ''link'' True False),
      (Restore, ex_profile ''copy'' True True), (Uninstall, ex_profile ''link'' True False)]"
    ex_platform "ex_state [home_vimrc \<mapsto> File ''A''] [True, True]"]
  by (simp add: ex_profile_def ex_state_def)

section \<open>Declining the confirmation\<close>

text \<open>
  C4. During backup (not a dry-run), when the file is to be backed up, its copy in the
  shared folder already exists and the user declines the prompt: the filesystem is
  left as it was, no file operation is called, and the loop goes on with the next
  tracked file.
\<close>

theorem backup_decline_short_circuit:
  assumes "backup_wanted (fs s) h m = Inr True" and "\<not> dry_run pf"
    and "exists_path (fs s) m" and "file_type_of (fs s) m m = Inr t"
    and "declines (answers s)"
  shows "\<exists>s'. backup_entry pf (h, m, name) s = Inr s'
           \<and> fs s' = fs s \<and> trace s' = trace s
           \<and> out s' = out s @ [if verbose pf then Backing_up_verbose h m else Backing_up name,
                                Confirm_replace_backup t m]
           \<and> backup_loop pf ((h, m, name) # es) s = backup_loop pf es s'"
  using assms
  by (cases "answers s")
    (simp_all add: backup_entry_def declines_def utils_confirm_def print_def Let_def)

theorem backup_decline_short_circuit_witness:
  "\<exists>s'. backup_entry (ex_profile ''link'' False False) (home_vimrc, mackup_vimrc, ''.vimrc'')
            (ex_state [home_vimrc \<mapsto> File ''A'', mackup_vimrc \<mapsto> File ''B''] [False]) = Inr s'
        \<and> fs s' = [home_vimrc \<mapsto> File ''A'', mackup_vimrc \<mapsto> File ''B'']
        \<and> trace s' = []
        \<and> out s' = [Backing_up ''.vimrc'', Confirm_replace_backup ''file'' mackup_vimrc]
        \<and> backup_loop (ex_profile ''link'' False False) [(home_vimrc, mackup_vimrc, ''.vimrc'')]
             (ex_state [home_vimrc \<mapsto> File ''A'', mackup_vimrc \<mapsto> File ''B''] [False]) = Inr s'"
  using backup_decline_short_circuit [of
      "ex_state [home_vimrc \<mapsto> File ''A'', mackup_vimrc \<mapsto> File ''B''] [False]"
      home_vimrc mackup_vimrc "ex_profile ''link'' False False" "''file''" "''.vimrc''" "[]"]
  by (simp add: ex_defs backup_wanted_def file_type_of_def declines_def os_defs follow_numeral)

section \<open>The backup-file action\<close>

lemma utils_copy_ok:
  "isfile (fs s) src \<or> isdir (fs s) src \<Longrightarrow>
   utils_copy src dst s =
     Inr (s\<lparr>trace := trace s @ [Copy src dst], fs := (fs s)(dst := stat (fs s) src)\<rparr>)"
  by (auto simp: utils_copy_def copy_fs_def isfile_def isdir_def Let_def
      split: option.splits node.splits)

text \<open>
  C6. For a home path that leads to a regular file or a directory, and differs from
  the shared-folder path. Under the link strategy the backup-file action calls, in this
  order, copy home to mackup, delete home, link at home to mackup, and nothing else;
  afterwards the shared-folder path holds what the home path led to and the home path
  is a link to the shared-folder path. Under the copy strategy it calls copy home to
  mackup and nothing else, and the home path holds what it held.
\<close>

theorem backup_file_steps:
  assumes "h \<noteq> m" and "isfile (fs s) h \<or> isdir (fs s) h"
  shows "(strategy pf = ''link'' \<longrightarrow>
            (\<exists>s'. backup_file pf h m s = Inr s'
               \<and> trace s' = trace s @ [Copy h m, Delete h, Symlink m h]
               \<and> fs s' = (fs s)(m := stat (fs s) h, h \<mapsto> Link m)))
       \<and> (strategy pf = ''copy'' \<longrightarrow>
            (\<exists>s'. backup_file pf h m s = Inr s'
               \<and> trace s' = trace s @ [Copy h m]
               \<and> fs s' = (fs s)(m := stat (fs s) h)
               \<and> fs s' h = fs s h))"
  using assms
  by (simp add: backup_file_def utils_copy_ok and_then_def utils_delete_def utils_link_def
      delete_fs_def link_fs_def Let_def)

theorem backup_file_steps_witness:
  "(\<exists>s'. backup_file (ex_profile ''link'' False False) home_vimrc mackup_vimrc
             (ex_state [home_vimrc \<mapsto> File ''A''] []) = Inr s'
        \<and> trace s' = [Copy home_vimrc mackup_vimrc, Delete home_vimrc,
                       Symlink mackup_vimrc home_vimrc]
        \<and> fs s' = [mackup_vimrc \<mapsto> File ''A'', home_vimrc \<mapsto> Link mackup_vimrc])
   \<and> (\<exists>s'. backup_file (ex_profile ''copy'' False False) home_vimrc mackup_vimrc
             (ex_state [home_vimrc \<mapsto> Dir ''T''] []) = Inr s'
        \<and> trace s' = [Copy home_vimrc mackup_vimrc]
        \<and> fs s' = [home_vimrc \<mapsto> Dir ''T'', mackup_vimrc \<mapsto> Dir ''T'']
        \<and> fs s' home_vimrc = Some (Dir ''T''))"
  using backup_file_steps [of home_vimrc mackup_vimrc "ex_state [home_vimrc \<mapsto> File ''A''] []"
      "ex_profile ''link'' False False"]
    backup_file_steps [of home_vimrc mackup_vimrc "ex_state [home_vimrc \<mapsto> Dir ''T''] []"
      "ex_profile ''copy'' False False"]
  by (simp add: ex_defs os_defs follow_numeral)

section \<open>A node that is neither file, directory nor link\<close>

text \<open>
  C7. Not in a dry-run. During backup, when the file is to be backed up and its
  shared-folder path exists but is neither a regular file, nor a directory, nor a link,
  the run stops there with the error "Unsupported file": the tracked files that follow
  are not processed. During restore the same holds for the home path (the error then
  names the shared-folder path, as the source does).
\<close>

theorem unsupported_node_aborts:
  "(backup_wanted (fs s) h m = Inr True \<and> \<not> dry_run pf \<and> exists_path (fs s) m
      \<and> \<not> isfile (fs s) m \<and> \<not> isdir (fs s) m \<and> \<not> islink (fs s) m
    \<longrightarrow> backup_loop pf ((h, m, name) # es) s =
          Inl (Unsupported_file m,
               print (if verbose pf then Backing_up_verbose h m else Backing_up name) s))
   \<and> (restore_wanted pl (fs s) m h = Inr True \<and> \<not> dry_run pf \<and> exists_path (fs s) h
      \<and> \<not> isfile (fs s) h \<and> \<not> isdir (fs s) h \<and> \<not> islink (fs s) h
    \<longrightarrow> restore_loop pl pf ((m, h, name) # es) s =
          Inl (Unsupported_file m,
               print (if verbose pf then Restoring_verbose h m else Restoring name) s))"
  by (simp add: backup_entry_def restore_entry_def file_type_of_def print_def Let_def)

theorem unsupported_node_aborts_witness:
  "backup_loop (ex_profile ''link'' False False)
       [(home_vimrc, mackup_vimrc, ''.vimrc''), (mackup_vimrc, home_vimrc, ''other'')]
       (ex_state [home_vimrc \<mapsto> File ''A'', mackup_vimrc \<mapsto> Special] [True]) =
     Inl (Unsupported_file mackup_vimrc,
          print (Backing_up ''.vimrc'')
            (ex_state [home_vimrc \<mapsto> File ''A'', mackup_vimrc \<mapsto> Special] [True]))
   \<and> restore_loop ex_platform (ex_profile ''link'' False False)
       [(mackup_vimrc, home_vimrc, ''.vimrc''), (home_vimrc, mackup_vimrc, ''other'')]
       (ex_state [mackup_vimrc \<mapsto> File ''A'', home_vimrc \<mapsto> Special] [True]) =
     Inl (Unsupported_file mackup_vimrc,
          print (Restoring ''.vimrc'')
            (ex_state [mackup_vimrc \<mapsto> File ''A'', home_vimrc \<mapsto> Special] [True]))"
  using unsupported_node_aborts [of
      "ex_state [home_vimrc \<mapsto> File ''A'', mackup_vimrc \<mapsto> Special] [True]"
      home_vimrc mackup_vimrc "ex_profile ''link'' False False" "''.vimrc''"
      "[(mackup_vimrc, home_vimrc, ''other'')]" ex_platform]
    unsupported_node_aborts [of
      "ex_state [mackup_vimrc \<mapsto> File ''A'', home_vimrc \<mapsto> Special] [True]"
      home_vimrc mackup_vimrc "ex_profile ''link'' False False" "''.vimrc''"
      "[(home_vimrc, mackup_vimrc, ''other'')]" ex_platform]
  by (simp add: ex_defs backup_wanted_def restore_wanted_def pointing_to_mackup_def os_defs
      follow_numeral)

section \<open>An invalid strategy\<close>

lemma backup_file_invalid:
  "strategy pf \<noteq> ''link'' \<Longrightarrow> strategy pf \<noteq> ''copy'' \<Longrightarrow>
   backup_file pf h m s = Inl (Invalid_strategy (strategy pf), s)"
  by (simp add: backup_file_def)

lemma restore_file_invalid:
  "strategy pf \<noteq> ''link'' \<Longrightarrow> strategy pf \<noteq> ''copy'' \<Longrightarrow>
   restore_file pf m h s = Inl (Invalid_strategy (strategy pf), s)"
  by (simp add: restore_file_def)

lemma not_declines: "\<not> declines as \<Longrightarrow> \<exists>rest. as = True # rest"
  by (cases as) (auto simp: declines_def)

lemma backup_entry_invalid_reached:
  assumes "strategy pf \<noteq> ''link''" and "strategy pf \<noteq> ''copy''"
    and "backup_entry_reaches pf e s"
  shows "\<exists>s'. backup_entry pf e s = Inl (Invalid_strategy (strategy pf), s')"
proof -
  obtain h m name where e: "e = (h, m, name)" by (cases e)
  from assms(3) e have w: "backup_wanted (fs s) h m = Inr True" and d: "\<not> dry_run pf"
    by (simp_all add: backup_entry_reaches_def)
  show ?thesis
  proof (cases "exists_path (fs s) m")
    case False
    with w d e assms(1,2) show ?thesis
      by (simp add: backup_entry_def backup_file_invalid print_def Let_def)
  next
    case True
    with assms(3) e obtain t where t: "file_type_of (fs s) m m = Inr t"
      and a: "\<not> declines (answers s)"
      by (auto simp: backup_entry_reaches_def split: sum.splits)
    from a obtain rest where r: "answers s = True # rest"
      using not_declines by blast
    from w d e True t r assms(1,2) show ?thesis
      by (simp add: backup_entry_def backup_file_invalid print_def Let_def utils_confirm_def
          utils_delete_def and_then_def)
  qed
qed

lemma backup_entry_invalid_not_reached:
  assumes "\<not> backup_entry_reaches pf e s"
  shows "\<not> raises_invalid_strategy (backup_entry pf e s)"
proof -
  obtain h m name where e: "e = (h, m, name)" by (cases e)
  obtain b where b: "backup_wanted (fs s) h m = Inr b"
    using backup_wanted_total by blast
  show ?thesis
  proof (cases "b \<and> \<not> dry_run pf")
    case False
    with b e show ?thesis
      by (cases b) (auto simp: backup_entry_def raises_invalid_strategy_def Let_def)
  next
    case True
    with assms b e have x: "exists_path (fs s) m"
      by (auto simp: backup_entry_reaches_def split: if_splits)
    show ?thesis
    proof (cases "file_type_of (fs s) m m")
      case (Inl err)
      then have "err = Unsupported_file m"
        by (auto simp: file_type_of_def split: if_splits)
      with Inl True b e x show ?thesis
        by (simp add: backup_entry_def raises_invalid_strategy_def Let_def print_def)
    next
      case (Inr t)
      with assms True b e x have "declines (answers s)"
        by (simp add: backup_entry_reaches_def)
      with Inr True b e x show ?thesis
        by (cases "answers s")
          (simp_all add: backup_entry_def raises_invalid_strategy_def Let_def print_def
            utils_confirm_def declines_def)
    qed
  qed
qed

lemma restore_entry_invalid_reached:
  assumes "strategy pf \<noteq> ''link''" and "strategy pf \<noteq> ''copy''"
    and "restore_entry_reaches pl pf e s"
  shows "\<exists>s'. restore_entry pl pf e s = Inl (Invalid_strategy (strategy pf), s')"
proof -
  obtain m h name where e: "e = (m, h, name)" by (cases e)
  from assms(3) e have w: "restore_wanted pl (fs s) m h = Inr True" and d: "\<not> dry_run pf"
    by (simp_all add: restore_entry_reaches_def)
  show ?thesis
  proof (cases "exists_path (fs s) h")
    case False
    with w d e assms(1,2) show ?thesis
      by (simp add: restore_entry_def restore_file_invalid print_def Let_def)
  next
    case True
    with assms(3) e obtain t where t: "file_type_of (fs s) h m = Inr t"
      and a: "\<not> declines (answers s)"
      by (auto simp: restore_entry_reaches_def split: sum.splits)
    from a obtain rest where r: "answers s = True # rest"
      using not_declines by blast
    from w d e True t r assms(1,2) show ?thesis
      by (simp add: restore_entry_def restore_file_invalid print_def Let_def utils_confirm_def
          utils_delete_def and_then_def)
  qed
qed

lemma restore_wanted_error:
  "restore_wanted pl f m h = Inl err \<Longrightarrow> \<forall>x. err \<noteq> Invalid_strategy x"
  by (auto simp: restore_wanted_def pointing_to_mackup_def samefile_def relative_to_def Let_def
      split: sum.splits if_splits option.splits)

lemma restore_entry_invalid_not_reached:
  assumes "\<not> restore_entry_reaches pl pf e s"
  shows "\<not> raises_invalid_strategy (restore_entry pl pf e s)"
proof -
  obtain m h name where e: "e = (m, h, name)" by (cases e)
  show ?thesis
  proof (cases "restore_wanted pl (fs s) m h")
    case (Inl err)
    with restore_wanted_error have "\<forall>x. err \<noteq> Invalid_strategy x" by blast
    with Inl e show ?thesis
      by (cases err) (simp_all add: restore_entry_def raises_invalid_strategy_def)
  next
    case (Inr b)
    show ?thesis
    proof (cases "b \<and> \<not> dry_run pf")
      case False
      with Inr e show ?thesis
        by (cases b) (auto simp: restore_entry_def raises_invalid_strategy_def Let_def)
    next
      case True
      with assms Inr e have x: "exists_path (fs s) h"
        by (auto simp: restore_entry_reaches_def split: if_splits)
      show ?thesis
      proof (cases "file_type_of (fs s) h m")
        case (Inl err)
        then have "err = Unsupported_file m"
          by (auto simp: file_type_of_def split: if_splits)
        with Inl True Inr e x show ?thesis
          by (simp add: restore_entry_def raises_invalid_strategy_def Let_def print_def)
      next
        case t: (Inr t)
        with assms True Inr e x have "declines (answers s)"
          by (simp add: restore_entry_reaches_def)
        with t True Inr e x show ?thesis
          by (cases "answers s")
            (simp_all add: restore_entry_def raises_invalid_strategy_def Let_def print_def
              utils_confirm_def declines_def)
      qed
    qed
  qed
qed

lemma backup_loop_invalid:
  assumes "strategy pf \<noteq> ''link''" and "strategy pf \<noteq> ''copy''"
  shows "raises_invalid_strategy (backup_loop pf es s) = backup_reaches pf es s"
proof (induction es arbitrary: s)
  case Nil
  show ?case by (simp add: raises_invalid_strategy_def)
next
  case (Cons e es)
  show ?case
  proof (cases "backup_entry_reaches pf e s")
    case True
    with backup_entry_invalid_reached [OF assms] obtain s'
      where "backup_entry pf e s = Inl (Invalid_strategy (strategy pf), s')" by blast
    with True show ?thesis by (simp add: raises_invalid_strategy_def)
  next
    case False
    with backup_entry_invalid_not_reached
    have "\<not> raises_invalid_strategy (backup_entry pf e s)" by blast
    with False Cons.IH show ?thesis
      by (cases "backup_entry pf e s") simp_all
  qed
qed

lemma restore_loop_invalid:
  assumes "strategy pf \<noteq> ''link''" and "strategy pf \<noteq> ''copy''"
  shows "raises_invalid_strategy (restore_loop pl pf es s) = restore_reaches pl pf es s"
proof (induction es arbitrary: s)
  case Nil
  show ?case by (simp add: raises_invalid_strategy_def)
next
  case (Cons e es)
  show ?case
  proof (cases "restore_entry_reaches pl pf e s")
    case True
    with restore_entry_invalid_reached [OF assms] obtain s'
      where "restore_entry pl pf e s = Inl (Invalid_strategy (strategy pf), s')" by blast
    with True show ?thesis by (simp add: raises_invalid_strategy_def)
  next
    case False
    with restore_entry_invalid_not_reached
    have "\<not> raises_invalid_strategy (restore_entry pl pf e s)" by blast
    with False Cons.IH show ?thesis
      by (cases "restore_entry pl pf e s") simp_all
  qed
qed

lemma backup_reaches_dry: "dry_run pf \<Longrightarrow> \<not> backup_reaches pf es s"
  by (induction es arbitrary: s) (auto simp: backup_entry_reaches_def split: sum.splits)

lemma restore_reaches_dry: "dry_run pf \<Longrightarrow> \<not> restore_reaches pl pf es s"
  by (induction es arbitrary: s) (auto simp: restore_entry_reaches_def split: sum.splits)


lemma sequence_err_Inl: "sequence_err xs = Inl e \<Longrightarrow> Inl e \<in> set xs"
  by (induction xs) (auto split: sum.splits)

lemma resolve_error: "resolve f p = Inl e \<Longrightarrow> e = Symlink_loop p"
  by (auto simp: resolve_def split: option.splits)

lemma relative_to_error: "relative_to p r = Inl e \<Longrightarrow> e = Not_relative p r"
  by (auto simp: relative_to_def split: if_splits)

lemma literal_entry_error:
  "literal_entry f src tgt x = Inl e \<Longrightarrow> \<exists>p. e = Symlink_loop p"
  by (auto simp: literal_entry_def split: sum.splits dest: resolve_error)

lemma glob_entry_error:
  "glob_entry f src tgt x = Inl e \<Longrightarrow> (\<exists>p. e = Symlink_loop p) \<or> (\<exists>p r. e = Not_relative p r)"
  by (auto simp: glob_entry_def split: sum.splits dest: resolve_error relative_to_error)

lemma get_files_error:
  assumes "get_files pl pf f src tgt = Inl e"
  shows "(\<exists>p. e = Symlink_loop p) \<or> (\<exists>p r. e = Not_relative p r)"
proof (cases "enable_glob pf")
  case True
  with assms have "Inl e \<in> set (concat (map (\<lambda>file_path.
      map (glob_entry f src tgt) (glob pl f src file_path)) (configuration_files pf)))"
    by (intro sequence_err_Inl) (simp add: get_files_def)
  then obtain x where "glob_entry f src tgt x = Inl e" by auto
  then show ?thesis by (rule glob_entry_error)
next
  case False
  with assms have "Inl e \<in> set (map (literal_entry f src tgt) (configuration_files pf))"
    by (intro sequence_err_Inl) (simp add: get_files_def)
  then obtain x where "literal_entry f src tgt x = Inl e" by auto
  then show ?thesis using literal_entry_error by blast
qed

lemma get_files_not_invalid:
  "get_files pl pf f src tgt = Inl e \<Longrightarrow> \<not> raises_invalid_strategy (Inl (e, s))"
  by (drule get_files_error) (auto simp: raises_invalid_strategy_def)

text \<open>
  C10. For a strategy that is neither "link" nor "copy": the backup-file and
  restore-file actions raise "Invalid strategy", so backup and restore stop with this
  error at a file that reaches the action (not a dry-run, the file is to be processed,
  and its counterpart is absent or the prompt is accepted); a run raises this error
  exactly when one of its files reaches the action, hence not when none does; and a
  dry-run never raises it.
\<close>

theorem invalid_strategy_raised:
  assumes "strategy pf \<noteq> ''link''" and "strategy pf \<noteq> ''copy''"
  shows "(backup_entry_reaches pf e s \<longrightarrow>
            (\<exists>s'. backup_loop pf (e # es) s = Inl (Invalid_strategy (strategy pf), s')))
       \<and> (restore_entry_reaches pl pf e s \<longrightarrow>
            (\<exists>s'. restore_loop pl pf (e # es) s = Inl (Invalid_strategy (strategy pf), s')))
       \<and> raises_invalid_strategy (backup_loop pf es s) = backup_reaches pf es s
       \<and> raises_invalid_strategy (restore_loop pl pf es s) = restore_reaches pl pf es s
       \<and> (dry_run pf \<longrightarrow> \<not> raises_invalid_strategy (backup pl pf s)
                          \<and> \<not> raises_invalid_strategy (restore pl pf s))"
proof (intro conjI impI)
  assume "backup_entry_reaches pf e s"
  with backup_entry_invalid_reached [OF assms] obtain s'
    where "backup_entry pf e s = Inl (Invalid_strategy (strategy pf), s')" by blast
  then show "\<exists>s'. backup_loop pf (e # es) s = Inl (Invalid_strategy (strategy pf), s')"
    by simp
next
  assume "restore_entry_reaches pl pf e s"
  with restore_entry_invalid_reached [OF assms] obtain s'
    where "restore_entry pl pf e s = Inl (Invalid_strategy (strategy pf), s')" by blast
  then show "\<exists>s'. restore_loop pl pf (e # es) s = Inl (Invalid_strategy (strategy pf), s')"
    by simp
next
  show "raises_invalid_strategy (backup_loop pf es s) = backup_reaches pf es s"
    by (rule backup_loop_invalid [OF assms])
next
  show "raises_invalid_strategy (restore_loop pl pf es s) = restore_reaches pl pf es s"
    by (rule restore_loop_invalid [OF assms])
next
  assume d: "dry_run pf"
  show "\<not> raises_invalid_strategy (backup pl pf s)"
  proof (cases "get_files pl pf (fs s) (HOME pl) (mackup_folder pf)")
    case (Inl err)
    then show ?thesis by (simp add: backup_def get_files_not_invalid)
  next
    case (Inr ents)
    then show ?thesis
      by (simp add: backup_def backup_loop_invalid [OF assms] backup_reaches_dry [OF d])
  qed
next
  assume d: "dry_run pf"
  show "\<not> raises_invalid_strategy (restore pl pf s)"
  proof (cases "get_files pl pf (fs s) (mackup_folder pf) (HOME pl)")
    case (Inl err)
    then show ?thesis by (simp add: restore_def get_files_not_invalid)
  next
    case (Inr ents)
    then show ?thesis
      by (simp add: restore_def restore_loop_invalid [OF assms] restore_reaches_dry [OF d])
  qed
qed

theorem invalid_strategy_raised_witness:
  "(\<exists>s'. backup_loop (ex_profile ''move'' False False)
            [(home_vimrc, mackup_vimrc, ''.vimrc''), (home_vimrc, mackup_vimrc, ''.vimrc'')]
            (ex_state [home_vimrc \<mapsto> File ''A''] []) = Inl (Invalid_strategy ''move'', s'))
   \<and> (\<exists>s'. restore_loop ex_platform (ex_profile ''move'' False False)
            [(mackup_vimrc, home_vimrc, ''.vimrc''), (mackup_vimrc, home_vimrc, ''.vimrc'')]
            (ex_state [mackup_vimrc \<mapsto> File ''A''] []) = Inl (Invalid_strategy ''move'', s'))
   \<and> \<not> raises_invalid_strategy (backup_loop (ex_profile ''move'' False False)
            [(home_vimrc, mackup_vimrc, ''.vimrc'')]
            (ex_state [home_vimrc \<mapsto> File ''A'', mackup_vimrc \<mapsto> File ''B''] [False]))
   \<and> \<not> raises_invalid_strategy (restore_loop ex_platform (ex_profile ''move'' False False)
            [(mackup_vimrc, home_vimrc, ''.vimrc'')]
            (ex_state [home_vimrc \<mapsto> File ''A''] []))
   \<and> \<not> raises_invalid_strategy (backup ex_platform (ex_profile ''move'' True False)
            (ex_state [home_vimrc \<mapsto> File ''A''] []))
   \<and> \<not> raises_invalid_strategy (restore ex_platform (ex_profile ''move'' True False)
            (ex_state [mackup_vimrc \<mapsto> File ''A''] []))"
  using invalid_strategy_raised [of "ex_profile ''move'' False False"
      "(home_vimrc, mackup_vimrc, ''.vimrc'')" "ex_state [home_vimrc \<mapsto> File ''A''] []"
      "[(home_vimrc, mackup_vimrc, ''.vimrc'')]"]
    invalid_strategy_raised [of "ex_profile ''move'' False False"
      "(mackup_vimrc, home_vimrc, ''.vimrc'')" "ex_state [mackup_vimrc \<mapsto> File ''A''] []"
      "[(mackup_vimrc, home_vimrc, ''.vimrc'')]" ex_platform]
    invalid_strategy_raised [of "ex_profile ''move'' False False" _
      "ex_state [home_vimrc \<mapsto> File ''A'', mackup_vimrc \<mapsto> File ''B''] [False]"
      "[(home_vimrc, mackup_vimrc, ''.vimrc'')]"]
    invalid_strategy_raised [of "ex_profile ''move'' False False" _
      "ex_state [home_vimrc \<mapsto> File ''A''] []"
      "[(mackup_vimrc, home_vimrc, ''.vimrc'')]" ex_platform]
    invalid_strategy_raised [of "ex_profile ''move'' True False" _
      "ex_state [home_vimrc \<mapsto> File ''A''] []" _ ex_platform]
    invalid_strategy_raised [of "ex_profile ''move'' True False" _
      "ex_state [mackup_vimrc \<mapsto> File ''A''] []" _ ex_platform]
  by (simp add: ex_defs backup_entry_reaches_def restore_entry_reaches_def backup_wanted_def
      restore_wanted_def pointing_to_mackup_def file_type_of_def declines_def os_defs
      follow_numeral backup_entry_def restore_entry_def utils_defs Let_def)

section \<open>Uninstall when the home file is absent\<close>

text \<open>
  C1. The run the claim fails on: the shared folder holds \<open>.vimrc\<close>, the home
  directory does not, uninstall is not a dry-run. The copy to the home path sits under
  the test that the home path exists, so uninstall returns with nothing copied, nothing
  printed and the home path still absent.
\<close>

theorem uninstall_home_absent_no_copy:
  "uninstall ex_platform (ex_profile ''link'' False True)
     (ex_state [mackup_vimrc \<mapsto> File ''A''] []) =
   Inr (ex_state [mackup_vimrc \<mapsto> File ''A''] [])
   \<and> fs (ex_state [mackup_vimrc \<mapsto> File ''A''] []) home_vimrc = None
   \<and> trace (ex_state [mackup_vimrc \<mapsto> File ''A''] []) = []"
  by (simp add: uninstall_def get_files_def literal_entry_def uninstall_entry_def ex_defs
      path_defs os_defs follow_numeral)

section \<open>The names emitted by the resolver\<close>

lemma sequence_err_Inr: "sequence_err xs = Inr vs \<Longrightarrow> xs = map Inr vs"
  by (induction xs arbitrary: vs) (auto split: sum.splits)

lemma literal_entry_name: "literal_entry f src tgt n = Inr e \<Longrightarrow> relative_name e = n"
  by (auto simp: literal_entry_def relative_name_def split: sum.splits)

lemma glob_entry_name:
  "glob_entry f src tgt filename = Inr e \<Longrightarrow>
   prefix src filename \<and> relative_name e = str_of (drop (length src) filename)"
  by (auto simp: glob_entry_def relative_name_def relative_to_def split: sum.splits if_splits)

lemma foldl_norm_step_plain: "''..'' \<notin> set xs \<Longrightarrow> foldl norm_step acc xs = acc @ xs"
  by (induction xs arbitrary: acc) (auto simp: norm_step_def)

lemma inside_walk_prefix:
  "inside_walk (length acc) cs \<Longrightarrow> prefix src (foldl norm_step (src @ acc) cs)"
proof (induction cs arbitrary: acc)
  case Nil
  show ?case by simp
next
  case (Cons c cs)
  show ?case
  proof (cases "c = ''..''")
    case True
    with Cons.prems have ne: "acc \<noteq> []" and w: "inside_walk (length (butlast acc)) cs"
      by auto
    from ne have "norm_step (src @ acc) c = src @ butlast acc"
      using True by (simp add: norm_step_def butlast_append)
    with Cons.IH [OF w] show ?thesis by simp
  next
    case False
    with Cons.prems have w: "inside_walk (length (acc @ [c])) cs" by simp
    from False have "norm_step (src @ acc) c = src @ (acc @ [c])"
      by (simp add: norm_step_def)
    with Cons.IH [OF w] show ?thesis by simp
  qed
qed

lemma name_inside_root_prefix:
  assumes "name_inside_root n" and "''..'' \<notin> set src"
  shows "prefix src (normpath (joinpath src n))"
proof -
  from assms(1) have j: "joinpath src n = src @ path_parts n"
    and w: "inside_walk (length ([]::path)) (path_parts n)"
    by (simp_all add: name_inside_root_def joinpath_def)
  from assms(2) have "foldl norm_step [] src = src @ []"
    by (simp add: foldl_norm_step_plain)
  with inside_walk_prefix [OF w, of src] j show ?thesis
    by (simp add: normpath_def)
qed

lemma literal_entries_names:
  "map (literal_entry f src tgt) ns = map Inr es \<Longrightarrow> map relative_name es = ns"
proof (induction ns arbitrary: es)
  case Nil
  then show ?case by simp
next
  case (Cons n ns)
  then obtain e es' where es: "es = e # es'" and e: "literal_entry f src tgt n = Inr e"
    and rest: "map (literal_entry f src tgt) ns = map Inr es'"
    by (cases es) auto
  from Cons.IH [OF rest] literal_entry_name [OF e] es show ?case by simp
qed

text \<open>
  C8, as amended. \<open>get_files\<close> does not check the names it emits. For literal
  specs the relative names are the configured path strings, unchanged and in order;
  for glob specs each relative name is the string of a match of one of the patterns,
  taken relative to the source root. A configured string that is not empty, is
  relative and never climbs above its root joins the source root to a path below that
  root.
\<close>

theorem get_files_names:
  assumes "get_files pl pf f src tgt = Inr es"
  shows "(\<not> enable_glob pf \<longrightarrow> map relative_name es = configuration_files pf)
       \<and> (enable_glob pf \<longrightarrow>
            (\<forall>e \<in> set es. \<exists>pattern \<in> set (configuration_files pf).
               \<exists>filename \<in> set (glob pl f src pattern).
                 prefix src filename \<and> relative_name e = str_of (drop (length src) filename)))
       \<and> (\<forall>n \<in> set (configuration_files pf).
            name_inside_root n \<and> ''..'' \<notin> set src \<longrightarrow> prefix src (normpath (joinpath src n)))"
proof (intro conjI impI ballI)
  assume "\<not> enable_glob pf"
  with assms have "map (literal_entry f src tgt) (configuration_files pf) = map Inr es"
    by (intro sequence_err_Inr) (simp add: get_files_def)
  then show "map relative_name es = configuration_files pf"
    by (rule literal_entries_names)
next
  fix e
  assume "enable_glob pf" and mem: "e \<in> set es"
  with assms have "concat (map (\<lambda>file_path.
      map (glob_entry f src tgt) (glob pl f src file_path)) (configuration_files pf)) = map Inr es"
    by (intro sequence_err_Inr) (simp add: get_files_def)
  with mem have "Inr e \<in> set (concat (map (\<lambda>file_path.
      map (glob_entry f src tgt) (glob pl f src file_path)) (configuration_files pf)))"
    by simp
  then obtain pattern filename where "pattern \<in> set (configuration_files pf)"
    and "filename \<in> set (glob pl f src pattern)" and "glob_entry f src tgt filename = Inr e"
    by auto
  with glob_entry_name
  show "\<exists>pattern \<in> set (configuration_files pf). \<exists>filename \<in> set (glob pl f src pattern).
          prefix src filename \<and> relative_name e = str_of (drop (length src) filename)"
    by blast
next
  fix n
  assume "name_inside_root n \<and> ''..'' \<notin> set src"
  then show "prefix src (normpath (joinpath src n))"
    by (simp add: name_inside_root_prefix)
qed

theorem get_files_names_witness:
  "map relative_name [(home_vimrc, mackup_vimrc, ''.vimrc'')] = [''.vimrc'']
   \<and> (\<exists>pattern \<in> set [''.vim*'']. \<exists>filename \<in> set (ex_glob Map.empty [''home''] pattern).
        prefix [''home''] filename
        \<and> relative_name (home_vimrc, mackup_vimrc, ''.vimrc'')
            = str_of (drop (length [''home'']) filename))
   \<and> prefix [''home''] (normpath (joinpath [''home''] ''.vimrc''))"
  using get_files_names [of ex_platform "ex_profile ''link'' False False" Map.empty
      "[''home'']" "[''mackup'']" "[(home_vimrc, mackup_vimrc, ''.vimrc'')]"]
    get_files_names [of "ex_platform\<lparr>glob := ex_glob\<rparr>"
      "(ex_profile ''link'' False False)\<lparr>configuration_files := [''.vim*''], enable_glob := True\<rparr>"
      Map.empty "[''home'']" "[''mackup'']"
      "[(home_vimrc, mackup_vimrc, ''.vimrc''), ([''home'', ''.vim''], [''mackup'', ''.vim''], ''.vim'')]"]
  by (simp add: get_files_def literal_entry_def glob_entry_def ex_glob_def ex_defs path_defs
      os_defs follow_numeral name_inside_root_def relative_name_def)

text \<open>
  C8, as stated, fails: for the configured paths \<open>../x\<close> and the empty string, the
  emitted names are \<open>../x\<close>, whose source path \<open>/x\<close> is outside the source root
  \<open>/home\<close>, and the empty name.
\<close>

theorem get_files_names_counterexample:
  "get_files ex_platform
     ((ex_profile ''link'' False False)\<lparr>configuration_files := [''../x'', '''']\<rparr>)
     Map.empty [''home''] [''mackup''] =
   Inr [([''x''], [''x''], ''../x''), ([''home''], [''mackup''], '''')]
   \<and> \<not> name_inside_root ''../x'' \<and> \<not> prefix [''home''] [''x'']
   \<and> \<not> name_inside_root ''''"
  by (simp add: get_files_def literal_entry_def ex_defs path_defs os_defs follow_numeral
      name_inside_root_def)

section \<open>Backup, then restore on a fresh home\<close>

lemma follow_result_not_link: "follow k f p = Some q \<Longrightarrow> \<not> islink f q"
  by (induction k arbitrary: p) (auto simp: islink_def split: option.splits node.splits)

lemma follow_stable:
  assumes "\<And>x. g x \<noteq> f x \<Longrightarrow> \<not> islink f x \<and> \<not> islink g x"
  shows "follow k g p = follow k f p"
proof (induction k arbitrary: p)
  case 0
  show ?case
  proof (cases "g p = f p")
    case True
    then show ?thesis by simp
  next
    case False
    with assms have "\<not> islink f p" and "\<not> islink g p" by blast+
    then show ?thesis by (metis follow_not_link)
  qed
next
  case (Suc k)
  show ?case
  proof (cases "g p = f p")
    case True
    with Suc.IH show ?thesis by (auto split: option.splits node.splits)
  next
    case False
    with assms have "\<not> islink f p" and "\<not> islink g p" by blast+
    then show ?thesis by (metis follow_not_link)
  qed
qed

lemma resolve_stable:
  assumes "\<And>x. g x \<noteq> f x \<Longrightarrow> \<not> islink f x \<and> \<not> islink g x"
  shows "resolve g p = resolve f p"
  using follow_stable [of g f, OF assms] by (simp add: resolve_def)

lemma resolve_not_link: "resolve f p = Inr q \<Longrightarrow> \<not> islink f q"
  by (auto simp: resolve_def split: option.splits dest: follow_result_not_link)

lemma not_link_node:
  "\<not> islink f p \<Longrightarrow> isfile f p \<or> isdir f p \<Longrightarrow> (\<exists>c. f p = Some (File c)) \<or> (\<exists>c. f p = Some (Dir c))"
  by (auto simp: isfile_def isdir_def stat_not_link split: option.splits node.splits)

lemma not_link_absent: "\<not> islink f p \<Longrightarrow> \<not> exists_path f p \<Longrightarrow> f p = None"
  by (auto simp: exists_path_def stat_not_link split: option.splits)

lemma get_files_single:
  assumes "\<not> enable_glob pf" and "configuration_files pf = [name]"
    and "resolve f (joinpath src name) = Inr a" and "resolve f (joinpath tgt name) = Inr b"
  shows "get_files pl pf f src tgt = Inr [(a, b, name)]"
  using assms by (simp add: get_files_def literal_entry_def)

lemma backup_file_link:
  assumes "strategy pf = ''link''" and "isfile (fs s) h \<or> isdir (fs s) h"
  shows "backup_file pf h m s =
     Inr (s\<lparr>trace := trace s @ [Copy h m, Delete h, Symlink m h],
            fs := (fs s)(m := stat (fs s) h, h \<mapsto> Link m)\<rparr>)"
  using assms
  by (simp add: backup_file_def utils_copy_ok and_then_def utils_delete_def utils_link_def
      delete_fs_def link_fs_def Let_def)

text \<open>
  C9, as amended. One tracked file, given literally, under the link strategy and not
  in a dry-run. The home path of the file leads to a regular file or a directory, the
  shared folder holds no copy of it, the resolved home path lies below \<open>HOME\<close> and
  the platform predicate accepts it. Then backup succeeds and leaves a link at the home
  path to the shared-folder path; and restore, run on that filesystem with the home
  path removed (the fresh home), succeeds and puts the same link back: the home path is
  a link to the same shared-folder file, which holds what the home file held, and the
  filesystem is the one backup left.
\<close>

theorem backup_restore_inverse:
  assumes link: "strategy pf = ''link''" and nd: "\<not> dry_run pf"
    and ng: "\<not> enable_glob pf" and cf: "configuration_files pf = [name]"
    and rh: "resolve (fs s) (joinpath (HOME pl) name) = Inr h"
    and rm: "resolve (fs s) (joinpath (mackup_folder pf) name) = Inr m"
    and present: "isfile (fs s) h \<or> isdir (fs s) h"
    and absent: "\<not> exists_path (fs s) m"
    and under: "prefix (HOME pl) h"
    and sup: "can_file_be_synced_on_current_platform pl (drop (length (HOME pl)) h)"
  shows "\<exists>s1. backup pl pf s = Inr s1
           \<and> fs s1 = (fs s)(m := fs s h, h \<mapsto> Link m)
           \<and> fs s1 h = Some (Link m)
           \<and> (\<forall>as ms cs. \<exists>s3.
                 restore pl pf \<lparr>fs = (fs s1)(h := None), answers = as, out = ms, trace = cs\<rparr>
                   = Inr s3
                 \<and> fs s3 h = Some (Link m) \<and> fs s3 m = fs s h \<and> fs s3 = fs s1)"
proof -
  from rh have nlh: "\<not> islink (fs s) h" by (rule resolve_not_link)
  from rm have nlm: "\<not> islink (fs s) m" by (rule resolve_not_link)
  from not_link_node [OF nlh present]
  have fh: "(\<exists>c. fs s h = Some (File c)) \<or> (\<exists>c. fs s h = Some (Dir c))" .
  from not_link_absent [OF nlm absent] have fm: "fs s m = None" .
  from fh fm have hm: "h \<noteq> m" by auto
  from nlh have sh: "stat (fs s) h = fs s h" by (rule stat_not_link)
  let ?msg = "if verbose pf then Backing_up_verbose h m else Backing_up name"
  let ?f1 = "(fs s)(m := fs s h, h \<mapsto> Link m)"
  let ?s1 = "(print ?msg s)\<lparr>trace := trace s @ [Copy h m, Delete h, Symlink m h], fs := ?f1\<rparr>"
  have gf: "get_files pl pf (fs s) (HOME pl) (mackup_folder pf) = Inr [(h, m, name)]"
    using ng cf rh rm by (rule get_files_single)
  have bw: "backup_wanted (fs s) h m = Inr True"
    using present nlh by (simp add: backup_wanted_def)
  have "backup_file pf h m (print ?msg s) = Inr ?s1"
    using backup_file_link [OF link, of "print ?msg s" h m] present sh
    by (simp add: print_def)
  with bw nd absent have be: "backup_entry pf (h, m, name) s = Inr ?s1"
    by (simp add: backup_entry_def Let_def print_def)
  from gf be have b: "backup pl pf s = Inr ?s1"
    by (simp add: backup_def)
  have f1: "fs ?s1 = ?f1" by (simp add: print_def)
  have f1h: "?f1 h = Some (Link m)" by simp
  let ?f2 = "?f1(h := None)"
  have f2m: "?f2 m = fs s h" using hm by simp
  have f2h: "?f2 h = None" by simp
  have nl2m: "\<not> islink ?f2 m" using fh f2m by (auto simp: islink_def)
  have nl2h: "\<not> islink ?f2 h" by (simp add: islink_def)
  have stable: "\<And>x. ?f2 x \<noteq> fs s x \<Longrightarrow> \<not> islink (fs s) x \<and> \<not> islink ?f2 x"
  proof -
    fix x
    assume d: "?f2 x \<noteq> fs s x"
    then have "x = m \<or> x = h" by (auto split: if_splits)
    then show "\<not> islink (fs s) x \<and> \<not> islink ?f2 x"
      using nlh nlm nl2m nl2h by blast
  qed
  have r2h: "resolve ?f2 (joinpath (HOME pl) name) = Inr h"
    using resolve_stable [of ?f2 "fs s", OF stable] rh by simp
  have r2m: "resolve ?f2 (joinpath (mackup_folder pf) name) = Inr m"
    using resolve_stable [of ?f2 "fs s", OF stable] rm by simp
  have gf2: "get_files pl pf ?f2 (mackup_folder pf) (HOME pl) = Inr [(m, h, name)]"
    using ng cf r2m r2h by (rule get_files_single)
  have e2m: "isfile ?f2 m \<or> isdir ?f2 m"
    using fh f2m nl2m by (auto simp: isfile_def isdir_def stat_not_link simp del: fun_upd_apply)
  have x2h: "\<not> exists_path ?f2 h"
    using nl2h f2h by (simp add: exists_path_def stat_not_link del: fun_upd_apply)
  have rw: "restore_wanted pl ?f2 m h = Inr True"
    using e2m nl2h under sup
    by (simp add: restore_wanted_def pointing_to_mackup_def relative_to_def Let_def
        del: fun_upd_apply)
  have r: "\<exists>s3. restore pl pf \<lparr>fs = (fs ?s1)(h := None), answers = as, out = ms, trace = cs\<rparr>
                = Inr s3
            \<and> fs s3 h = Some (Link m) \<and> fs s3 m = fs s h \<and> fs s3 = fs ?s1" for as ms cs
  proof -
    let ?s2 = "\<lparr>fs = ?f2, answers = as, out = ms, trace = cs\<rparr>"
    let ?msg2 = "if verbose pf then Restoring_verbose h m else Restoring name"
    let ?s3 = "(print ?msg2 ?s2)\<lparr>trace := cs @ [Symlink m h], fs := ?f2(h \<mapsto> Link m)\<rparr>"
    have "restore_file pf m h (print ?msg2 ?s2) = Inr ?s3"
      using link f2h
      by (simp add: restore_file_def utils_link_def link_fs_def print_def Let_def
          del: fun_upd_apply)
    with rw nd x2h have "restore_entry pl pf (m, h, name) ?s2 = Inr ?s3"
      by (simp add: restore_entry_def Let_def print_def del: fun_upd_apply)
    with gf2 have "restore pl pf ?s2 = Inr ?s3"
      by (simp add: restore_def del: fun_upd_apply)
    moreover have "fs ?s3 = ?f1" by (simp add: print_def)
    ultimately show ?thesis
      using hm by (simp add: print_def)
  qed
  show ?thesis
  proof (rule exI [of _ ?s1], intro conjI allI)
    show "backup pl pf s = Inr ?s1" by (rule b)
    show "fs ?s1 = ?f1" by (rule f1)
    show "fs ?s1 h = Some (Link m)" by (simp add: print_def)
    show "\<exists>s3. restore pl pf
        \<lparr>fs = (fs ?s1)(h := None), answers = as, out = ms, trace = cs\<rparr> = Inr s3
        \<and> fs s3 h = Some (Link m) \<and> fs s3 m = fs s h \<and> fs s3 = fs ?s1" for as ms cs
      by (rule r)
  qed
qed

theorem backup_restore_inverse_witness:
  "\<exists>s1. backup ex_platform (ex_profile ''link'' False False)
           (ex_state [home_vimrc \<mapsto> File ''A''] []) = Inr s1
       \<and> fs s1 = [home_vimrc \<mapsto> File ''A''](mackup_vimrc \<mapsto> File ''A'',
                    home_vimrc \<mapsto> Link mackup_vimrc)
       \<and> fs s1 home_vimrc = Some (Link mackup_vimrc)
       \<and> (\<exists>s3. restore ex_platform (ex_profile ''link'' False False)
                   \<lparr>fs = (fs s1)(home_vimrc := None), answers = [], out = [], trace = []\<rparr>
                 = Inr s3
               \<and> fs s3 home_vimrc = Some (Link mackup_vimrc)
               \<and> fs s3 mackup_vimrc = Some (File ''A'') \<and> fs s3 = fs s1)"
proof -
  have "\<exists>s1. backup ex_platform (ex_profile ''link'' False False)
           (ex_state [home_vimrc \<mapsto> File ''A''] []) = Inr s1
       \<and> fs s1 = (fs (ex_state [home_vimrc \<mapsto> File ''A''] []))
            (mackup_vimrc := fs (ex_state [home_vimrc \<mapsto> File ''A''] []) home_vimrc,
             home_vimrc \<mapsto> Link mackup_vimrc)
       \<and> fs s1 home_vimrc = Some (Link mackup_vimrc)
       \<and> (\<forall>as ms cs. \<exists>s3. restore ex_platform (ex_profile ''link'' False False)
                   \<lparr>fs = (fs s1)(home_vimrc := None), answers = as, out = ms, trace = cs\<rparr>
                 = Inr s3
               \<and> fs s3 home_vimrc = Some (Link mackup_vimrc)
               \<and> fs s3 mackup_vimrc = fs (ex_state [home_vimrc \<mapsto> File ''A''] []) home_vimrc
               \<and> fs s3 = fs s1)"
    by (rule backup_restore_inverse [where name = "''.vimrc''"])
      (simp_all add: ex_defs path_defs os_defs follow_numeral)
  then obtain s1 where
    "backup ex_platform (ex_profile ''link'' False False)
           (ex_state [home_vimrc \<mapsto> File ''A''] []) = Inr s1"
    and "fs s1 = [home_vimrc \<mapsto> File ''A''](mackup_vimrc \<mapsto> File ''A'',
                    home_vimrc \<mapsto> Link mackup_vimrc)"
    and "fs s1 home_vimrc = Some (Link mackup_vimrc)"
    and "\<forall>as ms cs. \<exists>s3. restore ex_platform (ex_profile ''link'' False False)
                   \<lparr>fs = (fs s1)(home_vimrc := None), answers = as, out = ms, trace = cs\<rparr>
                 = Inr s3
               \<and> fs s3 home_vimrc = Some (Link mackup_vimrc)
               \<and> fs s3 mackup_vimrc = Some (File ''A'')
               \<and> fs s3 = fs s1"
    by (auto simp: ex_state_def)
  then show ?thesis by blast
qed

text \<open>
  C9, as stated, fails. Restore asks the platform predicate, backup does not. For a
  file below \<open>Library\<close> on a platform that syncs nothing there, backup moves the file
  to the shared folder and links to it; restore on the fresh home reports that it does
  nothing, and the home path stays absent.
\<close>

theorem backup_restore_inverse_counterexample:
  "backup ex_platform_linux ex_profile_library
     (ex_state [[''home'', ''Library'', ''prefs''] \<mapsto> File ''A''] []) =
   Inr \<lparr>fs = [[''mackup'', ''Library'', ''prefs''] \<mapsto> File ''A'',
              [''home'', ''Library'', ''prefs''] \<mapsto> Link [''mackup'', ''Library'', ''prefs'']],
        answers = [],
        out = [Backing_up_verbose [''home'', ''Library'', ''prefs'']
                 [''mackup'', ''Library'', ''prefs'']],
        trace = [Copy [''home'', ''Library'', ''prefs''] [''mackup'', ''Library'', ''prefs''],
                 Delete [''home'', ''Library'', ''prefs''],
                 Symlink [''mackup'', ''Library'', ''prefs''] [''home'', ''Library'', ''prefs'']]\<rparr>
   \<and> restore ex_platform_linux ex_profile_library
       (ex_state ([[''mackup'', ''Library'', ''prefs''] \<mapsto> File ''A'',
                   [''home'', ''Library'', ''prefs''] \<mapsto> Link [''mackup'', ''Library'', ''prefs'']]
                  ([''home'', ''Library'', ''prefs''] := None)) []) =
     Inr \<lparr>fs = [[''mackup'', ''Library'', ''prefs''] \<mapsto> File ''A''], answers = [],
          out = [Does_not_exist [''mackup'', ''Library'', ''prefs'']], trace = []\<rparr>
   \<and> [[''mackup'', ''Library'', ''prefs''] \<mapsto> File ''A''] [''home'', ''Library'', ''prefs''] = None"
  by (simp add: backup_def restore_def get_files_def literal_entry_def backup_entry_def
      backup_wanted_def backup_file_def restore_entry_def restore_wanted_def
      pointing_to_mackup_def utils_defs ex_platform_linux_def ex_profile_library_def ex_defs
      path_defs os_defs follow_numeral Let_def)

section \<open>Running backup twice\<close>

lemma isfile_not_link: "\<not> islink f p \<Longrightarrow> isfile f p = (\<exists>c. f p = Some (File c))"
  by (auto simp: isfile_def stat_not_link split: option.splits node.splits)

lemma isdir_not_link: "\<not> islink f p \<Longrightarrow> isdir f p = (\<exists>c. f p = Some (Dir c))"
  by (auto simp: isdir_def stat_not_link split: option.splits node.splits)

lemma exists_not_link: "\<not> islink f p \<Longrightarrow> exists_path f p = (f p \<noteq> None)"
  by (auto simp: exists_path_def stat_not_link split: option.splits)

text \<open>
  C3, as amended. One tracked file, given literally, under the copy strategy and not
  in a dry-run; its home path leads to a regular file or a directory and the shared
  folder holds no copy of it. The first backup copies it to the shared folder. The
  second backup, run on the state the first one left, finds the copy, reports the file
  as being backed up again and asks for confirmation: when the user declines, no file
  operation is called; when the user accepts, the copy is deleted and made again. In
  both cases the filesystem is the one the first run left.
\<close>

theorem backup_twice_copy:
  assumes cp: "strategy pf = ''copy''" and nd: "\<not> dry_run pf"
    and ng: "\<not> enable_glob pf" and cf: "configuration_files pf = [name]"
    and rh: "resolve (fs s) (joinpath (HOME pl) name) = Inr h"
    and rm: "resolve (fs s) (joinpath (mackup_folder pf) name) = Inr m"
    and present: "isfile (fs s) h \<or> isdir (fs s) h"
    and absent: "\<not> exists_path (fs s) m"
  shows "\<exists>s1. backup pl pf s = Inr s1
           \<and> trace s1 = trace s @ [Copy h m] \<and> fs s1 = (fs s)(m := fs s h)
           \<and> (\<exists>s2. backup pl pf s1 = Inr s2
                 \<and> out s2 = out s1 @
                     [if verbose pf then Backing_up_verbose h m else Backing_up name,
                      Confirm_replace_backup (if isfile (fs s) h then ''file'' else ''folder'') m]
                 \<and> fs s2 = fs s1
                 \<and> trace s2 =
                     (if declines (answers s1) then trace s1
                      else trace s1 @ [Delete m, Copy h m]))"
proof -
  from rh have nlh: "\<not> islink (fs s) h" by (rule resolve_not_link)
  from rm have nlm: "\<not> islink (fs s) m" by (rule resolve_not_link)
  from not_link_node [OF nlh present]
  have fh: "(\<exists>c. fs s h = Some (File c)) \<or> (\<exists>c. fs s h = Some (Dir c))" .
  from not_link_absent [OF nlm absent] have fm: "fs s m = None" .
  from fh fm have hm: "h \<noteq> m" by auto
  from nlh have sh: "stat (fs s) h = fs s h" by (rule stat_not_link)
  let ?msg = "if verbose pf then Backing_up_verbose h m else Backing_up name"
  let ?f1 = "(fs s)(m := fs s h)"
  let ?s1 = "(print ?msg s)\<lparr>trace := trace s @ [Copy h m], fs := ?f1\<rparr>"
  have gf: "get_files pl pf (fs s) (HOME pl) (mackup_folder pf) = Inr [(h, m, name)]"
    using ng cf rh rm by (rule get_files_single)
  have bw: "backup_wanted (fs s) h m = Inr True"
    using present nlh by (simp add: backup_wanted_def)
  have "backup_file pf h m (print ?msg s) = Inr ?s1"
    using cp present sh utils_copy_ok [of "print ?msg s" h m]
    by (simp add: backup_file_def print_def)
  with bw nd absent have "backup_entry pf (h, m, name) s = Inr ?s1"
    by (simp add: backup_entry_def Let_def print_def)
  with gf have b: "backup pl pf s = Inr ?s1"
    by (simp add: backup_def)
  have f1h: "?f1 h = fs s h" using hm by simp
  have f1m: "?f1 m = fs s h" by simp
  have nl1h: "\<not> islink ?f1 h" using nlh f1h by (simp add: islink_def del: fun_upd_apply)
  have nl1m: "\<not> islink ?f1 m" using nlh f1m by (simp add: islink_def del: fun_upd_apply)
  have stable: "\<And>x. ?f1 x \<noteq> fs s x \<Longrightarrow> \<not> islink (fs s) x \<and> \<not> islink ?f1 x"
  proof -
    fix x
    assume "?f1 x \<noteq> fs s x"
    then have "x = m" by (auto split: if_splits)
    then show "\<not> islink (fs s) x \<and> \<not> islink ?f1 x"
      using nlm nl1m by blast
  qed
  have gf1: "get_files pl pf ?f1 (HOME pl) (mackup_folder pf) = Inr [(h, m, name)]"
    using ng cf resolve_stable [of ?f1 "fs s", OF stable] rh rm
    by (intro get_files_single) simp_all
  have p1: "isfile ?f1 h \<or> isdir ?f1 h"
    using fh f1h nl1h by (auto simp: isfile_not_link isdir_not_link simp del: fun_upd_apply)
  have bw1: "backup_wanted ?f1 h m = Inr True"
    using p1 nl1h by (simp add: backup_wanted_def del: fun_upd_apply)
  have x1: "exists_path ?f1 m"
    using fh f1m nl1m by (auto simp: exists_not_link simp del: fun_upd_apply)
  have ty: "file_type_of ?f1 m m = Inr (if isfile (fs s) h then ''file'' else ''folder'')"
    using fh f1m nl1m nlh
    by (auto simp: file_type_of_def isfile_not_link isdir_not_link simp del: fun_upd_apply)
  let ?q = "Confirm_replace_backup (if isfile (fs s) h then ''file'' else ''folder'') m"
  let ?asked = "out ?s1 @ [?msg, ?q]"
  have second: "\<exists>s2. backup_entry pf (h, m, name) ?s1 = Inr s2
      \<and> out s2 = ?asked \<and> fs s2 = ?f1
      \<and> trace s2 = (if declines (answers ?s1) then trace ?s1
                     else trace ?s1 @ [Delete m, Copy h m])"
  proof (cases "declines (answers s)")
    case True
    with bw1 nd x1 ty show ?thesis
      by (cases "answers s")
        (simp_all add: backup_entry_def Let_def print_def utils_confirm_def declines_def
          del: fun_upd_apply)
  next
    case False
    then obtain rest where r: "answers s = True # rest"
      using not_declines by blast
    have "?f1(m := None) = fs s" using fm by (auto simp: fun_eq_iff)
    then have after: "delete_fs ?f1 m = fs s" by (simp add: delete_fs_def del: fun_upd_apply)
    have "copy_fs (fs s) h m = Inr ?f1"
      using fh sh by (auto simp: copy_fs_def)
    with False r bw1 nd x1 ty cp after show ?thesis
      by (simp add: backup_entry_def Let_def print_def utils_confirm_def declines_def
          utils_delete_def and_then_def backup_file_def utils_copy_def
          del: fun_upd_apply)
  qed
  then obtain s2 where e2: "backup_entry pf (h, m, name) ?s1 = Inr s2"
    and o2: "out s2 = ?asked" and f2: "fs s2 = ?f1"
    and t2: "trace s2 = (if declines (answers ?s1) then trace ?s1
                         else trace ?s1 @ [Delete m, Copy h m])"
    by blast
  have fs1: "fs ?s1 = ?f1" by (simp add: print_def)
  from gf1 e2 fs1 have b2: "backup pl pf ?s1 = Inr s2"
    by (simp add: backup_def del: fun_upd_apply)
  show ?thesis
  proof (rule exI [of _ ?s1], intro conjI)
    show "backup pl pf s = Inr ?s1" by (rule b)
    show "trace ?s1 = trace s @ [Copy h m]" by (simp add: print_def)
    show "fs ?s1 = ?f1" by (rule fs1)
    show "\<exists>s2. backup pl pf ?s1 = Inr s2
             \<and> out s2 = out ?s1 @ [?msg, ?q] \<and> fs s2 = fs ?s1
             \<and> trace s2 = (if declines (answers ?s1) then trace ?s1
                            else trace ?s1 @ [Delete m, Copy h m])"
      using b2 o2 f2 t2 fs1 by (intro exI [of _ s2]) (simp del: fun_upd_apply)
  qed
qed

theorem backup_twice_copy_witness:
  "\<exists>s1. backup ex_platform (ex_profile ''copy'' False False)
           (ex_state [home_vimrc \<mapsto> File ''A''] []) = Inr s1
       \<and> trace s1 = [Copy home_vimrc mackup_vimrc]
       \<and> fs s1 = [home_vimrc \<mapsto> File ''A'', mackup_vimrc \<mapsto> File ''A'']
       \<and> (\<exists>s2. backup ex_platform (ex_profile ''copy'' False False) s1 = Inr s2
             \<and> out s2 = out s1 @ [Backing_up ''.vimrc'',
                                   Confirm_replace_backup ''file'' mackup_vimrc]
             \<and> fs s2 = fs s1 \<and> trace s2 = trace s1)"
proof -
  have "\<exists>s1. backup ex_platform (ex_profile ''copy'' False False)
           (ex_state [home_vimrc \<mapsto> File ''A''] []) = Inr s1
       \<and> trace s1 = trace (ex_state [home_vimrc \<mapsto> File ''A''] [])
            @ [Copy home_vimrc mackup_vimrc]
       \<and> fs s1 = (fs (ex_state [home_vimrc \<mapsto> File ''A''] []))
            (mackup_vimrc := fs (ex_state [home_vimrc \<mapsto> File ''A''] []) home_vimrc)
       \<and> (\<exists>s2. backup ex_platform (ex_profile ''copy'' False False) s1 = Inr s2
             \<and> out s2 = out s1 @
                 [if verbose (ex_profile ''copy'' False False)
                  then Backing_up_verbose home_vimrc mackup_vimrc else Backing_up ''.vimrc'',
                  Confirm_replace_backup
                    (if isfile (fs (ex_state [home_vimrc \<mapsto> File ''A''] [])) home_vimrc
                     then ''file'' else ''folder'') mackup_vimrc]
             \<and> fs s2 = fs s1
             \<and> trace s2 =
                 (if declines (answers s1) then trace s1
                  else trace s1 @ [Delete mackup_vimrc, Copy home_vimrc mackup_vimrc]))"
    by (rule backup_twice_copy [where name = "''.vimrc''"])
      (simp_all add: ex_defs path_defs os_defs follow_numeral)
  then obtain s1 s2 where 1: "backup ex_platform (ex_profile ''copy'' False False)
           (ex_state [home_vimrc \<mapsto> File ''A''] []) = Inr s1"
    and 2: "trace s1 = [Copy home_vimrc mackup_vimrc]"
    and 3: "fs s1 = [home_vimrc \<mapsto> File ''A'', mackup_vimrc \<mapsto> File ''A'']"
    and 4: "backup ex_platform (ex_profile ''copy'' False False) s1 = Inr s2"
    and 5: "out s2 = out s1 @ [Backing_up ''.vimrc'',
                                   Confirm_replace_backup ''file'' mackup_vimrc]"
    and 6: "fs s2 = fs s1"
    and 7: "trace s2 =
                 (if declines (answers s1) then trace s1
                  else trace s1 @ [Delete mackup_vimrc, Copy home_vimrc mackup_vimrc])"
    by (auto simp: ex_defs os_defs follow_numeral)
  from 1 have "answers s1 = []"
    by (auto simp: backup_def get_files_def literal_entry_def backup_entry_def backup_wanted_def
        backup_file_def utils_defs ex_defs path_defs os_defs follow_numeral Let_def)
  with 7 have "trace s2 = trace s1" by (simp add: declines_def)
  with 1 2 3 4 5 6 show ?thesis by blast
qed

text \<open>
  C3, as stated, fails. Under the copy strategy, in verbose mode, the user answering
  "yes": the second backup does not report "already backed up"; it reports the file as
  being backed up, asks for confirmation, deletes the shared copy and copies the file
  again.
\<close>

theorem backup_twice_counterexample:
  "backup ex_platform (ex_profile ''copy'' False True)
     (ex_state [home_vimrc \<mapsto> File ''A''] [True]) =
   Inr \<lparr>fs = [home_vimrc \<mapsto> File ''A'', mackup_vimrc \<mapsto> File ''A''], answers = [True],
        out = [Backing_up_verbose home_vimrc mackup_vimrc],
        trace = [Copy home_vimrc mackup_vimrc]\<rparr>
   \<and> backup ex_platform (ex_profile ''copy'' False True)
       \<lparr>fs = [home_vimrc \<mapsto> File ''A'', mackup_vimrc \<mapsto> File ''A''], answers = [True],
        out = [Backing_up_verbose home_vimrc mackup_vimrc],
        trace = [Copy home_vimrc mackup_vimrc]\<rparr> =
   Inr \<lparr>fs = [home_vimrc \<mapsto> File ''A'', mackup_vimrc \<mapsto> File ''A''], answers = [],
        out = [Backing_up_verbose home_vimrc mackup_vimrc,
               Backing_up_verbose home_vimrc mackup_vimrc,
               Confirm_replace_backup ''file'' mackup_vimrc],
        trace = [Copy home_vimrc mackup_vimrc, Delete mackup_vimrc,
                 Copy home_vimrc mackup_vimrc]\<rparr>"
  by (simp add: backup_def get_files_def literal_entry_def backup_entry_def backup_wanted_def
      backup_file_def file_type_of_def utils_defs ex_defs path_defs os_defs follow_numeral Let_def)

text \<open>
  Under the link strategy the second backup is no no-op either. The home path is a
  link after the first run, and \<open>get_files\<close> resolves it to the shared-folder path,
  so that the test for a link at the home path is false: the file is reported as being
  backed up, and once the user accepts, the shared copy is deleted and the copy of the
  path onto itself fails.
\<close>

lemma backup_twice_link_loses_copy:
  "backup ex_platform (ex_profile ''link'' False True)
     (ex_state [home_vimrc \<mapsto> File ''A''] [True]) =
   Inr \<lparr>fs = [mackup_vimrc \<mapsto> File ''A'', home_vimrc \<mapsto> Link mackup_vimrc], answers = [True],
        out = [Backing_up_verbose home_vimrc mackup_vimrc],
        trace = [Copy home_vimrc mackup_vimrc, Delete home_vimrc,
                 Symlink mackup_vimrc home_vimrc]\<rparr>
   \<and> backup ex_platform (ex_profile ''link'' False True)
       \<lparr>fs = [mackup_vimrc \<mapsto> File ''A'', home_vimrc \<mapsto> Link mackup_vimrc], answers = [True],
        out = [Backing_up_verbose home_vimrc mackup_vimrc],
        trace = [Copy home_vimrc mackup_vimrc, Delete home_vimrc,
                 Symlink mackup_vimrc home_vimrc]\<rparr> =
   Inl (Copy_failed mackup_vimrc,
        \<lparr>fs = [home_vimrc \<mapsto> Link mackup_vimrc], answers = [],
         out = [Backing_up_verbose home_vimrc mackup_vimrc,
                Backing_up_verbose mackup_vimrc mackup_vimrc,
                Confirm_replace_backup ''file'' mackup_vimrc],
         trace = [Copy home_vimrc mackup_vimrc, Delete home_vimrc,
                  Symlink mackup_vimrc home_vimrc, Delete mackup_vimrc,
                  Copy mackup_vimrc mackup_vimrc]\<rparr>)"
  by (simp add: backup_def get_files_def literal_entry_def backup_entry_def backup_wanted_def
      backup_file_def file_type_of_def utils_defs ex_defs path_defs os_defs follow_numeral Let_def)

section \<open>The confirmation before restore\<close>

text \<open>
  C5. The run the claim fails on: the shared folder holds \<open>.vimrc\<close>, the home path
  \<open>/home/.vimrc\<close> exists as a link, to \<open>/home/gone\<close>, where nothing is, and restore
  is not a dry-run. \<open>get_files\<close> resolves the home path to \<open>/home/gone\<close>, which
  does not exist: restore asks nothing and creates a link at \<open>/home/gone\<close>.
\<close>

theorem restore_dangling_link_no_prompt:
  "fs (ex_state [mackup_vimrc \<mapsto> File ''A'', home_vimrc \<mapsto> Link [''home'', ''gone'']] [])
     home_vimrc = Some (Link [''home'', ''gone''])
   \<and> restore ex_platform (ex_profile ''link'' False False)
       (ex_state [mackup_vimrc \<mapsto> File ''A'', home_vimrc \<mapsto> Link [''home'', ''gone'']] []) =
     Inr \<lparr>fs = [mackup_vimrc \<mapsto> File ''A'', home_vimrc \<mapsto> Link [''home'', ''gone''],
                [''home'', ''gone''] \<mapsto> Link mackup_vimrc],
          answers = [], out = [Restoring ''.vimrc''],
          trace = [Symlink mackup_vimrc [''home'', ''gone'']]\<rparr>"
  by (simp add: restore_def get_files_def literal_entry_def restore_entry_def restore_wanted_def
      pointing_to_mackup_def restore_file_def utils_defs ex_defs path_defs os_defs follow_numeral
      Let_def)

text \<open>
  A link at the home path that leads to an existing file: the prompt is asked, and once
  it is accepted it is the file the link leads to that is deleted and replaced by the
  new link, not the link at the home path.
\<close>

lemma restore_link_elsewhere:
  "restore ex_platform (ex_profile ''link'' False False)
       (ex_state [mackup_vimrc \<mapsto> File ''A'', home_vimrc \<mapsto> Link [''home'', ''old''],
                  [''home'', ''old''] \<mapsto> File ''B''] [True]) =
     Inr \<lparr>fs = [mackup_vimrc \<mapsto> File ''A'', home_vimrc \<mapsto> Link [''home'', ''old''],
                [''home'', ''old''] \<mapsto> Link mackup_vimrc],
          answers = [],
          out = [Restoring ''.vimrc'', Confirm_replace_home ''file'' ''.vimrc''],
          trace = [Delete [''home'', ''old''], Symlink mackup_vimrc [''home'', ''old'']]\<rparr>"
  by (simp add: restore_def get_files_def literal_entry_def restore_entry_def restore_wanted_def
      pointing_to_mackup_def restore_file_def file_type_of_def utils_defs ex_defs path_defs
      os_defs follow_numeral Let_def)

text \<open>
  The loop body itself, given a home path that is a link leading nowhere, raises in
  \<open>os.path.samefile\<close> before anything is printed.
\<close>

lemma restore_entry_dangling_link_raises:
  "restore_entry ex_platform (ex_profile ''link'' False False)
       (mackup_vimrc, home_vimrc, ''.vimrc'')
       (ex_state [mackup_vimrc \<mapsto> File ''A'', home_vimrc \<mapsto> Link [''home'', ''gone'']] []) =
     Inl (File_not_found home_vimrc,
          ex_state [mackup_vimrc \<mapsto> File ''A'', home_vimrc \<mapsto> Link [''home'', ''gone'']] [])"
  by (simp add: restore_entry_def restore_wanted_def pointing_to_mackup_def utils_defs ex_defs
      os_defs follow_numeral Let_def)

text \<open>
  What does hold for an entry that restore takes up, not in a dry-run. If the home path
  of the entry exists when links are followed and can be classified, the prompt comes
  before any file operation: a declined prompt leaves the entry with nothing but the
  two messages; an accepted prompt deletes the home path and then performs the
  restore-file action. If nothing is at the home path, the restore-file action is
  performed without a prompt.
\<close>

lemma restore_entry_prompt:
  assumes w: "restore_wanted pl (fs s) m h = Inr True" and nd: "\<not> dry_run pf"
  shows "(exists_path (fs s) h \<and> file_type_of (fs s) h m = Inr t \<and> declines (answers s) \<longrightarrow>
            restore_entry pl pf (m, h, name) s =
              Inr (s\<lparr>out := out s @ [if verbose pf then Restoring_verbose h m else Restoring name,
                                       Confirm_replace_home t name],
                     answers := tl (answers s)\<rparr>))
       \<and> (exists_path (fs s) h \<and> file_type_of (fs s) h m = Inr t \<and> answers s = True # rest \<longrightarrow>
            restore_entry pl pf (m, h, name) s =
              restore_file pf m h
                (s\<lparr>out := out s @ [if verbose pf then Restoring_verbose h m else Restoring name,
                                    Confirm_replace_home t name],
                   answers := rest, fs := (fs s)(h := None), trace := trace s @ [Delete h]\<rparr>))
       \<and> (fs s h = None \<longrightarrow>
            restore_entry pl pf (m, h, name) s =
              restore_file pf m h
                (s\<lparr>out := out s @ [if verbose pf then Restoring_verbose h m
                                    else Restoring name]\<rparr>))"
proof (intro conjI impI)
  assume "exists_path (fs s) h \<and> file_type_of (fs s) h m = Inr t \<and> declines (answers s)"
  with w nd show "restore_entry pl pf (m, h, name) s =
      Inr (s\<lparr>out := out s @ [if verbose pf then Restoring_verbose h m else Restoring name,
                               Confirm_replace_home t name],
             answers := tl (answers s)\<rparr>)"
    by (cases "answers s")
      (simp_all add: restore_entry_def Let_def print_def utils_confirm_def declines_def)
next
  assume "exists_path (fs s) h \<and> file_type_of (fs s) h m = Inr t \<and> answers s = True # rest"
  with w nd show "restore_entry pl pf (m, h, name) s =
      restore_file pf m h
        (s\<lparr>out := out s @ [if verbose pf then Restoring_verbose h m else Restoring name,
                            Confirm_replace_home t name],
           answers := rest, fs := (fs s)(h := None), trace := trace s @ [Delete h]\<rparr>)"
    by (simp add: restore_entry_def Let_def print_def utils_confirm_def utils_delete_def
        delete_fs_def and_then_def)
next
  assume "fs s h = None"
  then have "\<not> exists_path (fs s) h"
    by (simp add: exists_path_def stat_not_link islink_def)
  with w nd show "restore_entry pl pf (m, h, name) s =
      restore_file pf m h
        (s\<lparr>out := out s @ [if verbose pf then Restoring_verbose h m else Restoring name]\<rparr>)"
    by (simp add: restore_entry_def Let_def print_def)
qed

section \<open>Uninstall when the home file is present\<close>

text \<open>
  The other half of the uninstall step: when the shared-folder file is there and the
  home path exists, the home path is deleted, with no prompt, and the shared-folder
  file is copied to it.
\<close>

lemma uninstall_home_present:
  assumes "isfile (fs s) m \<or> isdir (fs s) m" and "exists_path (fs s) h" and "\<not> dry_run pf"
    and "h \<noteq> m" and "\<not> islink (fs s) m"
  shows "uninstall_entry pf (m, h, name) s =
     Inr (s\<lparr>out := out s @ [if verbose pf then Reverting_verbose m h else Reverting name],
            trace := trace s @ [Delete h, Copy m h],
            fs := (fs s)(h := fs s m)\<rparr>)"
proof -
  let ?g = "(fs s)(h := None)"
  from assms(4,5) have nl: "\<not> islink ?g m" by (simp add: islink_def)
  from assms(4) have gm: "?g m = fs s m" by simp
  from assms(1,5) have "(\<exists>c. fs s m = Some (File c)) \<or> (\<exists>c. fs s m = Some (Dir c))"
    by (simp add: not_link_node)
  with nl gm have "copy_fs ?g m h = Inr (?g(h := fs s m))"
    by (auto simp: copy_fs_def stat_not_link simp del: fun_upd_apply)
  with assms(1,2,3) show ?thesis
    by (simp add: uninstall_entry_def Let_def print_def utils_delete_def delete_fs_def
        and_then_def utils_copy_def del: fun_upd_apply)
qed

text \<open>
  After a backup under the link strategy the home path is a link to the shared-folder
  file, and \<open>get_files\<close> resolves it to the shared-folder path: uninstall then deletes
  the shared-folder file itself, and the copy of the path onto itself fails.
\<close>

lemma uninstall_after_link_backup:
  "uninstall ex_platform (ex_profile ''link'' False False)
     (ex_state [mackup_vimrc \<mapsto> File ''A'', home_vimrc \<mapsto> Link mackup_vimrc] []) =
   Inl (Copy_failed mackup_vimrc,
        \<lparr>fs = [home_vimrc \<mapsto> Link mackup_vimrc], answers = [],
         out = [Reverting ''.vimrc''],
         trace = [Delete mackup_vimrc, Copy mackup_vimrc mackup_vimrc]\<rparr>)"
  by (simp add: uninstall_def get_files_def literal_entry_def uninstall_entry_def utils_defs
      ex_defs path_defs os_defs follow_numeral Let_def)

end
